theory Spec2Isabelle
  imports Main "HOL-Library.Word"
begin

section \<open>The OSI frame filter of libasiotap (include/asiotap/osi/filter.hpp)\<close>

text \<open>
  The header declares the cast, check and parse functions on frames and the filter
  classes that dispatch parsed frames to callbacks. Frame types are template
  parameters in the source; here a frame type is a value of a type variable \<open>'t\<close>,
  and what the source gets from a template instance (\<open>sizeof\<close>, the specialisation of
  \<open>check_frame\<close>, the specialisation of \<open>frame_parent_match\<close>, the \<open>payload()\<close> of
  the view) is read from a record of functions indexed by the frame type. Objects
  that the source reaches through pointers, the filters, live in an explicit memory;
  exceptions are values; the nesting of \<open>parse\<close> calls is bounded by a budget.
\<close>

subsection \<open>Buffers, errors and frame views\<close>

type_synonym byte = "8 word"

text \<open>A \<open>boost::asio\<close> buffer: a byte range of known length. Nothing in this file
  writes through a buffer, so the mutable and the constant buffer have one model.\<close>

type_synonym buffer = "byte list"

text \<open>What a C++ function may throw. \<open>runtime_error m\<close> is \<open>std::runtime_error\<close> (or a
  class derived from it) with message \<open>m\<close>: what \<open>catch (std::runtime_error&)\<close>
  catches. \<open>other_exception\<close> is any other thrown object.\<close>

datatype exn = runtime_error string | other_exception string

text \<open>Modelled from the spec: \<open>helper.hpp\<close>, which declares \<open>const_helper\<close>,
  \<open>mutable_helper\<close>, the \<open>helper\<close> function that builds them from a buffer and
  their \<open>payload()\<close>, is not among the sources. A frame view is a typed window over a
  buffer: the frame type and the buffer it was built on.\<close>

datatype 't const_helper = const_helper 't buffer

datatype 't mutable_helper = mutable_helper 't buffer

text \<open>Modelled from the spec: the conversion \<open>const_helper<T>(mutable_helper<T>)\<close>, a
  read-only view over the same bytes.\<close>

fun const_helper_of :: "'t mutable_helper \<Rightarrow> 't const_helper" where
  "const_helper_of (mutable_helper t buf) = const_helper t buf"

fun helper_type :: "'t const_helper \<Rightarrow> 't" where
  "helper_type (const_helper t buf) = t"

fun helper_buffer :: "'t const_helper \<Rightarrow> buffer" where
  "helper_buffer (const_helper t buf) = buf"

text \<open>What the template instances supply: \<open>sizeof(OSIFrameType)\<close>, the specialisation
  of \<open>check_frame\<close> on a \<open>const_helper\<close> (only declared in this header) and the
  specialisation of \<open>frame_parent_match<OSIFrameType, ParentOSIFrameType>\<close> (only
  declared in this header; the first argument is the child type, the parent type is
  the type of the view).\<close>

record 't osi =
  sizeof :: "'t \<Rightarrow> nat"
  check_frame :: "'t const_helper \<Rightarrow> bool"
  frame_parent_match :: "'t \<Rightarrow> 't const_helper \<Rightarrow> bool"
  helper_payload :: "'t const_helper \<Rightarrow> buffer"

text \<open>The last field is the member \<open>payload()\<close> of \<open>const_helper\<close>, which \<open>parse\<close>
  calls and \<open>helper.hpp\<close> defines for each frame type: the filters are modelled for
  any such function.\<close>

text \<open>Modelled from the spec: \<open>payload()\<close> of \<open>helper.hpp\<close> is the sub-range of the
  buffer strictly after the header, and the header is the leading region of the
  header's size.\<close>

fun payload :: "'t osi \<Rightarrow> 't const_helper \<Rightarrow> buffer" where
  "payload env (const_helper t buf) = drop (sizeof env t) buf"

fun header_bytes :: "'t osi \<Rightarrow> 't const_helper \<Rightarrow> buffer" where
  "header_bytes env (const_helper t buf) = take (sizeof env t) buf"

subsection \<open>frame_cast, check_frame, frame_parse\<close>

text \<open>\<open>frame_cast\<close>: \<open>NULL\<close> (\<open>None\<close>) when the buffer is smaller than the frame
  type, otherwise the pointer \<open>buffer_cast\<close> gives, which designates the buffer's
  bytes. The two overloads have the same body.\<close>

definition frame_cast_mutable :: "'t osi \<Rightarrow> 't \<Rightarrow> buffer \<Rightarrow> buffer option" where
  "frame_cast_mutable env t buf =
     (if length buf < sizeof env t then None else Some buf)"

definition frame_cast :: "'t osi \<Rightarrow> 't \<Rightarrow> buffer \<Rightarrow> buffer option" where
  "frame_cast env t buf =
     (if length buf < sizeof env t then None else Some buf)"

text \<open>\<open>check_frame\<close> on a mutable view is defined in the header: it converts the view
  and calls the overload on \<open>const_helper\<close>.\<close>

definition check_frame_mutable :: "'t osi \<Rightarrow> 't mutable_helper \<Rightarrow> bool" where
  "check_frame_mutable env frame = check_frame env (const_helper_of frame)"

definition frame_parse_mutable :: "'t osi \<Rightarrow> 't \<Rightarrow> buffer \<Rightarrow> exn + 't mutable_helper" where
  "frame_parse_mutable env t buf =
     (if frame_cast_mutable env t buf = None then Inl (runtime_error ''Frame too small'')
      else let result = mutable_helper t buf
           in if \<not> check_frame_mutable env result
              then Inl (runtime_error ''Frame parsing failed'')
              else Inr result)"

definition frame_parse :: "'t osi \<Rightarrow> 't \<Rightarrow> buffer \<Rightarrow> exn + 't const_helper" where
  "frame_parse env t buf =
     (if frame_cast env t buf = None then Inl (runtime_error ''Frame too small'')
      else let result = const_helper t buf
           in if \<not> check_frame env result
              then Inl (runtime_error ''Frame parsing failed'')
              else Inr result)"

text \<open>The two errors of \<open>frame_parse\<close>, under the names the specification gives
  them.\<close>

abbreviation TooSmall :: exn where
  "TooSmall \<equiv> runtime_error ''Frame too small''"

abbreviation Malformed :: exn where
  "Malformed \<equiv> runtime_error ''Frame parsing failed''"

subsection \<open>Filters and their callbacks\<close>

text \<open>
  A callback is a \<open>boost::function<void (const_helper<OSIFrameType>)>\<close>. Two kinds
  are told apart. \<open>Observer i g\<close> is a callback of the user, known by a number \<open>i\<close>;
  called on a frame in a state \<open>w\<close> of the user's own data it either returns or
  throws, and leaves the user's data changed: \<open>g frame w = (thrown, w')\<close>.
  \<open>Bound_parse a\<close> is the callback the constructor of a non-root filter registers,
  \<open>boost::bind(&filter::parse, this, _1)\<close>, where \<open>a\<close> is the address \<open>this\<close>.
\<close>

datatype ('t, 'w) callback =
    Observer nat "'t const_helper \<Rightarrow> 'w \<Rightarrow> exn option \<times> 'w"
  | Bound_parse nat

text \<open>A filter object: its frame type (static in the source) and its vector
  \<open>m_callbacks\<close>.\<close>

record ('t, 'w) filter_obj =
  frame_type :: 't
  m_callbacks :: "('t, 'w) callback list"

text \<open>The memory: the filter objects by address (the index in \<open>filters\<close>), the
  user's data (\<open>world\<close>), and a log of the observer calls made so far, by observer
  number and frame view (\<open>fired\<close>), which only the instrumentation of the model
  writes.\<close>

record ('t, 'w) memory =
  filters :: "('t, 'w) filter_obj list"
  fired :: "(nat \<times> 't const_helper) list"
  world :: 'w

definition filter_at :: "('t, 'w) memory \<Rightarrow> nat \<Rightarrow> ('t, 'w) filter_obj option" where
  "filter_at s a = (if a < length (filters s) then Some (filters s ! a) else None)"

text \<open>\<open>_base_filter::add_callback\<close>: \<open>push_back\<close> on the vector of the filter at
  address \<open>a\<close>. On an address that holds no filter the source has no defined
  behaviour; the model leaves the memory as it is.\<close>

definition add_callback :: "nat \<Rightarrow> ('t, 'w) callback \<Rightarrow> ('t, 'w) memory \<Rightarrow> ('t, 'w) memory" where
  "add_callback a callback s =
     (if a < length (filters s)
      then s\<lparr>filters := (filters s)[a := (filters s ! a)
               \<lparr>m_callbacks := m_callbacks (filters s ! a) @ [callback]\<rparr>]\<rparr>
      else s)"

text \<open>Construction of a root filter (\<open>filter<OSIFrameType, void>\<close> has the implicit
  default constructor): a new object with no callback. The result is the address of
  the new object and the memory.\<close>

definition new_root :: "'t \<Rightarrow> ('t, 'w) memory \<Rightarrow> nat \<times> ('t, 'w) memory" where
  "new_root t s =
     (length (filters s), s\<lparr>filters := filters s @ [\<lparr>frame_type = t, m_callbacks = []\<rparr>]\<rparr>)"

text \<open>The constructor \<open>filter(ParentFilterType& parent)\<close>: the new object registers
  its own \<open>parse\<close> with the parent.\<close>

definition new_filter :: "'t \<Rightarrow> nat \<Rightarrow> ('t, 'w) memory \<Rightarrow> nat \<times> ('t, 'w) memory" where
  "new_filter t parent s =
     (let this = length (filters s);
          s' = s\<lparr>filters := filters s @ [\<lparr>frame_type = t, m_callbacks = []\<rparr>]\<rparr>
      in (this, add_callback parent (Bound_parse this) s'))"

subsection \<open>Dispatch and parse\<close>

text \<open>The outcome of a call: the exception that left it, if any, and the memory.
  \<open>None\<close> in front of it is a call with no outcome in the model: the recursion
  budget is used up, or a callback holds the address of no filter.\<close>

type_synonym ('t, 'w) outcome = "(exn option \<times> ('t, 'w) memory) option"

text \<open>\<open>catch (std::runtime_error&) { }\<close> around a block.\<close>

fun catch_runtime_error :: "exn option \<times> 's \<Rightarrow> exn option \<times> 's" where
  "catch_runtime_error (Some (runtime_error m), s) = (None, s)"
| "catch_runtime_error (r, s) = (r, s)"

text \<open>\<open>std::for_each\<close> over a range with a function that may throw: the first
  exception ends the loop and leaves it.\<close>

fun for_each :: "('c \<Rightarrow> 's \<Rightarrow> (exn option \<times> 's) option) \<Rightarrow> 'c list \<Rightarrow> 's \<Rightarrow> (exn option \<times> 's) option" where
  "for_each f [] s = Some (None, s)"
| "for_each f (c # cs) s =
     (case f c s of
        None \<Rightarrow> None
      | Some (Some e, s') \<Rightarrow> Some (Some e, s')
      | Some (None, s') \<Rightarrow> for_each f cs s')"

text \<open>Calling one callback on a frame (\<open>boost::lambda::bind(_1, frame)\<close>). An
  observer is logged, then run on the user's data. A bound \<open>parse\<close> runs the
  \<open>parse\<close> of the child filter, given as \<open>child_parse\<close>.\<close>

fun invoke :: "(nat \<Rightarrow> 't const_helper \<Rightarrow> ('t, 'w) memory \<Rightarrow> ('t, 'w) outcome)
    \<Rightarrow> 't const_helper \<Rightarrow> ('t, 'w) callback \<Rightarrow> ('t, 'w) memory \<Rightarrow> ('t, 'w) outcome" where
  "invoke child_parse frame (Observer i g) s =
     (let s1 = s\<lparr>fired := fired s @ [(i, frame)]\<rparr>;
          r = g frame (world s1)
      in Some (fst r, s1\<lparr>world := snd r\<rparr>))"
| "invoke child_parse frame (Bound_parse a) s = child_parse a frame s"

text \<open>\<open>_base_filter::frame_handled\<close>: every callback of the vector, from \<open>begin()\<close>
  to \<open>end()\<close>, on the same frame.\<close>

definition frame_handled :: "(nat \<Rightarrow> 't const_helper \<Rightarrow> ('t, 'w) memory \<Rightarrow> ('t, 'w) outcome)
    \<Rightarrow> ('t, 'w) filter_obj \<Rightarrow> 't const_helper \<Rightarrow> ('t, 'w) memory \<Rightarrow> ('t, 'w) outcome" where
  "frame_handled child_parse this frame s =
     for_each (invoke child_parse frame) (m_callbacks this) s"

text \<open>\<open>filter<OSIFrameType, ParentFilterType>::parse\<close> of the filter at address
  \<open>a\<close>, on a frame of the parent. The first argument bounds the depth of nested
  \<open>parse\<close> calls below this one.\<close>

primrec parse :: "nat \<Rightarrow> 't osi \<Rightarrow> nat \<Rightarrow> 't const_helper \<Rightarrow> ('t, 'w) memory \<Rightarrow> ('t, 'w) outcome" where
  "parse 0 env a parent s = None"
| "parse (Suc n) env a parent s =
     (case filter_at s a of
        None \<Rightarrow> None
      | Some this \<Rightarrow>
          if frame_parent_match env (frame_type this) parent
          then map_option catch_runtime_error
                 (case frame_parse env (frame_type this) (helper_payload env parent) of
                    Inl e \<Rightarrow> Some (Some e, s)
                  | Inr frame \<Rightarrow> frame_handled (parse n env) this frame s)
          else Some (None, s))"

text \<open>\<open>filter<OSIFrameType, void>::parse\<close> of the root filter at address \<open>a\<close>, on a
  buffer. The first argument bounds the depth of the \<open>parse\<close> calls nested in it.\<close>

definition parse_root :: "nat \<Rightarrow> 't osi \<Rightarrow> nat \<Rightarrow> buffer \<Rightarrow> ('t, 'w) memory \<Rightarrow> ('t, 'w) outcome" where
  "parse_root n env a buf s =
     (case filter_at s a of
        None \<Rightarrow> None
      | Some this \<Rightarrow>
          map_option catch_runtime_error
            (case frame_parse env (frame_type this) buf of
               Inl e \<Rightarrow> Some (Some e, s)
             | Inr frame \<Rightarrow> frame_handled (parse n env) this frame s))"

subsection \<open>Shapes of the memory that the properties speak of\<close>

text \<open>The memory holds trees of filters when every bound \<open>parse\<close> in the vector of
  a filter is that of a filter built later, at an address that exists: what the
  constructors give, a child being built from a reference to its parent.\<close>

fun child_after :: "nat \<Rightarrow> nat \<Rightarrow> ('t, 'w) callback \<Rightarrow> bool" where
  "child_after a n (Bound_parse c) = (a < c \<and> c < n)"
| "child_after a n (Observer i g) = True"

definition tree_shaped :: "('t, 'w) memory \<Rightarrow> bool" where
  "tree_shaped s =
     list_all (\<lambda>(a, this). list_all (child_after a (length (filters s))) (m_callbacks this))
       (enumerate 0 (filters s))"

text \<open>An observer is steady when the frame alone decides whether it returns or
  throws, and what it throws; an observer that never throws is steady.\<close>

fun steady :: "('t, 'w) callback \<Rightarrow> bool" where
  "steady (Observer i g) = (\<forall>frame w w'. fst (g frame w) = fst (g frame w'))"
| "steady (Bound_parse a) = True"

definition steady_observers :: "('t, 'w) memory \<Rightarrow> bool" where
  "steady_observers s = list_all (\<lambda>this. list_all steady (m_callbacks this)) (filters s)"

text \<open>A callback that is an observer returning from every call on the frame, and the
  number by which the log knows a callback.\<close>

fun returning :: "'t const_helper \<Rightarrow> ('t, 'w) callback \<Rightarrow> bool" where
  "returning frame (Observer i g) = (\<forall>w. fst (g frame w) = None)"
| "returning frame (Bound_parse a) = False"

fun observer_number :: "('t, 'w) callback \<Rightarrow> nat" where
  "observer_number (Observer i g) = i"
| "observer_number (Bound_parse a) = a"

text \<open>\<open>keeps_callbacks s s'\<close>: every filter of \<open>s\<close> is still there in \<open>s'\<close>, with its
  frame type, and its callbacks of \<open>s\<close> are the first callbacks it has in \<open>s'\<close>, in
  the same order.\<close>

definition keeps_callbacks :: "('t, 'w) memory \<Rightarrow> ('t, 'w) memory \<Rightarrow> bool" where
  "keeps_callbacks s s' =
     (length (filters s) \<le> length (filters s')
      \<and> (\<forall>a<length (filters s).
            frame_type (filters s' ! a) = frame_type (filters s ! a)
            \<and> take (length (m_callbacks (filters s ! a))) (m_callbacks (filters s' ! a))
                = m_callbacks (filters s ! a)))"

text \<open>A call that, when it has an outcome, leaves the filter objects as they were.\<close>

definition leaves_filters :: "(('t, 'w) memory \<Rightarrow> ('t, 'w) outcome) \<Rightarrow> bool" where
  "leaves_filters run = (\<forall>s r s'. run s = Some (r, s') \<longrightarrow> filters s' = filters s)"

text \<open>Two calls, one from the memory \<open>s\<close> and one from \<open>t\<close>, that end the same way
  (no outcome for both, or the same exception or none), leave the filter objects
  alone, and have made the same observer calls, in the same order, on the same
  views.\<close>

definition same_calls ::
  "('t, 'w) memory \<Rightarrow> ('t, 'w) memory \<Rightarrow> ('t, 'w) outcome \<Rightarrow> ('t, 'w) outcome \<Rightarrow> bool" where
  "same_calls s t x y =
     (case x of
        None \<Rightarrow> y = None
      | Some (r, s') \<Rightarrow>
          (case y of
             None \<Rightarrow> False
           | Some (r', t') \<Rightarrow>
               r' = r \<and> filters s' = filters s \<and> filters t' = filters t
               \<and> (\<exists>calls. fired s' = fired s @ calls \<and> fired t' = fired t @ calls)))"

subsection \<open>An instance for the concrete evaluations\<close>

text \<open>Four frame types: \<open>Hdr4\<close> with a header of four bytes, whose first byte must be
  4 and whose second byte, when 7, announces \<open>ProtoA\<close> or \<open>ProtoB\<close>; \<open>ProtoA\<close> and
  \<open>ProtoB\<close> with headers of two bytes that must begin with 10 and 11; \<open>ProtoC\<close>,
  carried by a \<open>ProtoB\<close> whose second byte is 1, with a header of one byte, 12. The
  payload of a view is what follows the header.\<close>

datatype proto = Hdr4 | ProtoA | ProtoB | ProtoC

fun demo_sizeof :: "proto \<Rightarrow> nat" where
  "demo_sizeof Hdr4 = 4"
| "demo_sizeof ProtoA = 2"
| "demo_sizeof ProtoB = 2"
| "demo_sizeof ProtoC = 1"

fun demo_check :: "proto const_helper \<Rightarrow> bool" where
  "demo_check (const_helper Hdr4 buf) = (take 1 buf = [4])"
| "demo_check (const_helper ProtoA buf) = (take 1 buf = [10])"
| "demo_check (const_helper ProtoB buf) = (take 1 buf = [11])"
| "demo_check (const_helper ProtoC buf) = (take 1 buf = [12])"

fun demo_match :: "proto \<Rightarrow> proto const_helper \<Rightarrow> bool" where
  "demo_match ProtoA (const_helper Hdr4 buf) = (take 1 (drop 1 buf) = [7])"
| "demo_match ProtoB (const_helper Hdr4 buf) = (take 1 (drop 1 buf) = [7])"
| "demo_match ProtoC (const_helper ProtoB buf) = (take 1 (drop 1 buf) = [1])"
| "demo_match t parent = False"

definition demo :: "proto osi" where
  "demo = \<lparr>sizeof = demo_sizeof, check_frame = demo_check,
           frame_parent_match = demo_match,
           helper_payload = (\<lambda>v. drop (demo_sizeof (helper_type v)) (helper_buffer v))\<rparr>"

text \<open>A buffer that nests a \<open>ProtoC\<close> in a \<open>ProtoB\<close> in a \<open>Hdr4\<close>; as a \<open>ProtoA\<close> its
  payload is announced and malformed.\<close>

definition demo_buf :: buffer where
  "demo_buf = [4, 7, 0, 0, 11, 1, 12]"

text \<open>Observers over a counter as the user's data, which each call increments: one
  that returns, one that throws a \<open>std::runtime_error\<close>, one that throws something
  else.\<close>

definition returns :: "proto const_helper \<Rightarrow> nat \<Rightarrow> exn option \<times> nat" where
  "returns frame w = (None, Suc w)"

definition throws_runtime_error :: "proto const_helper \<Rightarrow> nat \<Rightarrow> exn option \<times> nat" where
  "throws_runtime_error frame w = (Some (runtime_error ''observer''), Suc w)"

definition throws_other :: "proto const_helper \<Rightarrow> nat \<Rightarrow> exn option \<times> nat" where
  "throws_other frame w = (Some (other_exception ''observer''), Suc w)"

definition empty_memory :: "(proto, nat) memory" where
  "empty_memory = \<lparr>filters = [], fired = [], world = 0\<rparr>"

text \<open>A root filter on \<open>Hdr4\<close> with one observer.\<close>

definition demo_root :: "(proto, nat) memory" where
  "demo_root =
     (let (root, s) = new_root Hdr4 empty_memory
      in add_callback root (Observer 1 returns) s)"

text \<open>A root filter on \<open>Hdr4\<close> with two children, on \<open>ProtoA\<close> and on \<open>ProtoB\<close>, each
  with one observer.\<close>

definition demo_fanout :: "(proto, nat) memory" where
  "demo_fanout =
     (let (root, s) = new_root Hdr4 empty_memory;
          (fa, s) = new_filter ProtoA root s;
          (fb, s) = new_filter ProtoB root s;
          s = add_callback fa (Observer 1 returns) s
      in add_callback fb (Observer 2 returns) s)"

text \<open>A root filter on \<open>Hdr4\<close> with a child on \<open>ProtoB\<close> and, after it, observer 4;
  the child has observer 2, which behaves as \<open>g\<close>, and then observer 3.\<close>

definition demo_raising :: "(proto const_helper \<Rightarrow> nat \<Rightarrow> exn option \<times> nat) \<Rightarrow> (proto, nat) memory" where
  "demo_raising g =
     (let (root, s) = new_root Hdr4 empty_memory;
          (fb, s) = new_filter ProtoB root s;
          s = add_callback root (Observer 4 returns) s;
          s = add_callback fb (Observer 2 g) s
      in add_callback fb (Observer 3 returns) s)"

text \<open>Two ways of building three levels, each with one callback of the user. In the
  first, each filter gets its callback before its child is constructed; in the
  second the three filters are constructed first and the callbacks are added
  afterwards.\<close>

definition observers_first ::
  "'t \<Rightarrow> 't \<Rightarrow> 't \<Rightarrow> ('t, 'w) callback \<Rightarrow> ('t, 'w) callback \<Rightarrow> ('t, 'w) callback
     \<Rightarrow> ('t, 'w) memory \<Rightarrow> ('t, 'w) memory" where
  "observers_first t1 t2 t3 o1 o2 o3 s0 =
     (let (root, s) = new_root t1 s0;
          s = add_callback root o1 s;
          (l2, s) = new_filter t2 root s;
          s = add_callback l2 o2 s;
          (l3, s) = new_filter t3 l2 s
      in add_callback l3 o3 s)"

definition filters_first ::
  "'t \<Rightarrow> 't \<Rightarrow> 't \<Rightarrow> ('t, 'w) callback \<Rightarrow> ('t, 'w) callback \<Rightarrow> ('t, 'w) callback
     \<Rightarrow> ('t, 'w) memory \<Rightarrow> ('t, 'w) memory" where
  "filters_first t1 t2 t3 o1 o2 o3 s0 =
     (let (root, s) = new_root t1 s0;
          (l2, s) = new_filter t2 root s;
          (l3, s) = new_filter t3 l2 s;
          s = add_callback root o1 s;
          s = add_callback l2 o2 s
      in add_callback l3 o3 s)"

definition demo_tree :: "(proto, nat) memory" where
  "demo_tree = observers_first Hdr4 ProtoB ProtoC
     (Observer 1 returns) (Observer 2 returns) (Observer 3 returns) empty_memory"

section \<open>Properties of frame_cast and frame_parse\<close>

lemma frame_cast_None: "(frame_cast env t buf = None) = (length buf < sizeof env t)"
  by (simp add: frame_cast_def)

lemma frame_parse_Inl_runtime_error:
  "frame_parse env t buf = Inl e \<Longrightarrow> \<exists>m. e = runtime_error m"
  by (auto simp: frame_parse_def Let_def split: if_splits)

lemma frame_parse_Inr:
  "frame_parse env t buf = Inr v \<Longrightarrow> v = const_helper t buf \<and> sizeof env t \<le> length buf"
  by (auto simp: frame_parse_def frame_cast_def Let_def split: if_splits)

text \<open>
  Claim C1. For every buffer and frame type, \<open>frame_parse\<close> fails with the error
  "Frame too small" (the specification's \<open>TooSmall\<close>) exactly when the buffer is
  strictly shorter than the type's size; when the buffer is long enough and
  \<open>check_frame\<close> rejects the view, it fails with "Frame parsing failed"
  (\<open>Malformed\<close>); otherwise it returns the view over the buffer.
\<close>

theorem frame_parse_cases:
  "((frame_parse env t buf = Inl TooSmall) = (length buf < sizeof env t))
   \<and> (sizeof env t \<le> length buf \<and> \<not> check_frame env (const_helper t buf)
        \<longrightarrow> frame_parse env t buf = Inl Malformed)
   \<and> (sizeof env t \<le> length buf \<and> check_frame env (const_helper t buf)
        \<longrightarrow> frame_parse env t buf = Inr (const_helper t buf))"
  by (simp add: frame_parse_def frame_cast_def Let_def)

text \<open>The three scenarios of the specification: a header of four bytes and a buffer
  of three bytes; a buffer of four bytes that the check rejects; a buffer of six bytes
  that it accepts.\<close>

theorem frame_parse_cases_witness:
  "frame_parse demo Hdr4 [4, 7, 0] = Inl TooSmall
   \<and> frame_parse demo Hdr4 [0, 7, 0, 0] = Inl Malformed
   \<and> frame_parse demo Hdr4 [4, 7, 0, 0, 11, 1] = Inr (const_helper Hdr4 [4, 7, 0, 0, 11, 1])"
  using frame_parse_cases [of demo Hdr4 "[4, 7, 0]"]
    frame_parse_cases [of demo Hdr4 "[0, 7, 0, 0]"]
    frame_parse_cases [of demo Hdr4 "[4, 7, 0, 0, 11, 1]"]
  by (simp add: demo_def)

text \<open>
  Claim C2. No byte past the end of the buffer is read: \<open>frame_cast\<close> answers from the
  length of the buffer alone (two buffers of one length get the same answer, \<open>NULL\<close>
  exactly when the length is below the size of the frame type, and the overload on
  mutable buffers answers the same), and \<open>frame_parse\<close>
  consults \<open>check_frame\<close>, the only reader of the contents, on views of at least the
  size of the frame type only: a check that differs on shorter buffers alone gives
  the same result of \<open>frame_parse\<close>, and a view that \<open>frame_parse\<close> returns holds the
  whole header.
\<close>

theorem frame_cast_length_only:
  "((frame_cast env t buf = None) = (length buf < sizeof env t))
   \<and> frame_cast_mutable env t buf = frame_cast env t buf
   \<and> (length buf' = length buf
        \<longrightarrow> (frame_cast env t buf' = None) = (frame_cast env t buf = None))
   \<and> ((\<forall>b. sizeof env t \<le> length b
            \<longrightarrow> check_frame env' (const_helper t b) = check_frame env (const_helper t b))
        \<and> sizeof env' t = sizeof env t
        \<longrightarrow> frame_parse env' t buf = frame_parse env t buf)
   \<and> (frame_parse env t buf = Inr v \<longrightarrow> sizeof env t \<le> length (helper_buffer v))"
  by (auto simp: frame_parse_def frame_cast_def frame_cast_mutable_def Let_def)

theorem frame_cast_length_only_witness:
  "frame_cast demo Hdr4 [4, 7, 0] = None
   \<and> frame_cast demo Hdr4 [0, 0, 0] = None
   \<and> frame_parse (demo\<lparr>check_frame := (\<lambda>v. 4 \<le> length (helper_buffer v) \<and> demo_check v)\<rparr>)
        Hdr4 [4, 7, 0] = frame_parse demo Hdr4 [4, 7, 0]
   \<and> frame_parse demo Hdr4 [4, 7, 0, 0, 11, 1] = Inr (const_helper Hdr4 [4, 7, 0, 0, 11, 1])
   \<and> sizeof demo Hdr4 \<le> length (helper_buffer (const_helper Hdr4 [4, 7, 0, 0, 11, 1 :: byte]))"
  using frame_cast_length_only [of demo Hdr4 "[4, 7, 0]" "[0, 0, 0]"
      "demo\<lparr>check_frame := (\<lambda>v. 4 \<le> length (helper_buffer v) \<and> demo_check v)\<rparr>"
      "const_helper Hdr4 [4, 7, 0]"]
    frame_cast_length_only [of demo Hdr4 "[4, 7, 0, 0, 11, 1]" "[4, 7, 0, 0, 11, 1]" demo
      "const_helper Hdr4 [4, 7, 0, 0, 11, 1]"]
  by (simp add: demo_def frame_parse_def frame_cast_def)

text \<open>
  Claim C7. When the buffer passes the cast and the check, the view \<open>frame_parse\<close>
  returns is the view over that buffer: its header is the leading bytes of the buffer,
  as many as the size of the frame type, and its payload is the bytes of the buffer
  after them, so that header and payload together are the buffer. The fields are read
  from the header bytes by the layout of the type. (\<open>payload\<close> and \<open>header_bytes\<close> are
  modelled from the specification.)
\<close>

theorem frame_parse_view:
  "frame_parse env t buf = Inr v \<Longrightarrow>
     v = const_helper t buf
     \<and> header_bytes env v = take (sizeof env t) buf
     \<and> length (header_bytes env v) = sizeof env t
     \<and> payload env v = drop (sizeof env t) buf
     \<and> header_bytes env v @ payload env v = buf"
  by (auto simp: frame_parse_def frame_cast_def Let_def split: if_splits)

theorem frame_parse_view_witness:
  "frame_parse demo Hdr4 [4, 7, 0, 0, 11, 1] = Inr (const_helper Hdr4 [4, 7, 0, 0, 11, 1])
   \<and> header_bytes demo (const_helper Hdr4 [4, 7, 0, 0, 11, 1]) = [4, 7, 0, 0]
   \<and> payload demo (const_helper Hdr4 [4, 7, 0, 0, 11, 1]) = [11, 1]"
proof -
  have p: "frame_parse demo Hdr4 [4, 7, 0, 0, 11, 1] = Inr (const_helper Hdr4 [4, 7, 0, 0, 11, 1])"
    by (simp add: frame_parse_def frame_cast_def demo_def)
  from frame_parse_view [OF p] p show ?thesis
    by (simp add: demo_def)
qed

text \<open>
  Claim C8. For every frame type and view, the check of a mutable view is the check
  of the read-only view over the same bytes: \<open>check_frame\<close> on a \<open>mutable_helper\<close>
  equals \<open>check_frame\<close> on the \<open>const_helper\<close> built from it.
\<close>

theorem check_frame_mutable_delegates:
  "check_frame_mutable env frame = check_frame env (const_helper_of frame)
   \<and> check_frame_mutable env (mutable_helper t buf) = check_frame env (const_helper t buf)"
  by (simp add: check_frame_mutable_def)

text \<open>The two overloads of \<open>frame_parse\<close> fail on the same buffers with the same
  error, and succeed with views of the same bytes.\<close>

lemma frame_parse_mutable_const:
  "frame_parse env t buf = map_sum id const_helper_of (frame_parse_mutable env t buf)"
  by (simp add: frame_parse_def frame_parse_mutable_def frame_cast_def
      frame_cast_mutable_def check_frame_mutable_def Let_def)

section \<open>Dispatch: general facts\<close>

subsection \<open>The loop over the callbacks\<close>

lemma for_each_append:
  "for_each f (xs @ ys) s =
     (case for_each f xs s of
        None \<Rightarrow> None
      | Some (Some e, s') \<Rightarrow> Some (Some e, s')
      | Some (None, s') \<Rightarrow> for_each f ys s')"
  by (induction xs arbitrary: s) (auto split: option.splits prod.splits)

lemma frame_handled_append:
  "frame_handled child_parse (f\<lparr>m_callbacks := before @ after\<rparr>) frame s =
     (case frame_handled child_parse (f\<lparr>m_callbacks := before\<rparr>) frame s of
        None \<Rightarrow> None
      | Some (Some e, s1) \<Rightarrow> Some (Some e, s1)
      | Some (None, s1) \<Rightarrow> frame_handled child_parse (f\<lparr>m_callbacks := after\<rparr>) frame s1)"
  by (simp add: frame_handled_def for_each_append split: option.splits prod.splits)

text \<open>When every callback returns, the loop runs them all, one after the other from
  the memory the one before has left.\<close>

lemma for_each_all_return:
  "\<forall>c\<in>set cs. \<forall>s. \<exists>s'. f c s = Some (None, s') \<Longrightarrow>
   for_each f cs s = Some (None, foldl (\<lambda>s c. snd (the (f c s))) s cs)"
proof (induction cs arbitrary: s)
  case Nil
  then show ?case by simp
next
  case (Cons c cs)
  then obtain s1 where s1: "f c s = Some (None, s1)" by (meson list.set_intros(1))
  have "for_each f cs s1 = Some (None, foldl (\<lambda>s c. snd (the (f c s))) s1 cs)"
    using Cons.IH Cons.prems by simp
  with s1 show ?case by simp
qed

text \<open>When a callback throws, the loop ends there, whatever comes after it in the
  vector.\<close>

lemma for_each_raise:
  assumes "for_each f before s = Some (None, s1)" and "f c s1 = Some (Some e, s2)"
  shows "for_each f (before @ c # after) s = Some (Some e, s2)"
  using assms by (simp add: for_each_append)

text \<open>Observers that return are logged in the order of the vector, each with the
  frame.\<close>

lemma for_each_returning:
  "list_all (returning frame) cs \<Longrightarrow>
   \<exists>s'. for_each (invoke child_parse frame) cs s = Some (None, s')
        \<and> fired s' = fired s @ map (\<lambda>c. (observer_number c, frame)) cs
        \<and> filters s' = filters s"
proof (induction cs arbitrary: s)
  case Nil
  then show ?case by simp
next
  case (Cons c cs)
  then obtain i g where c: "c = Observer i g" and g: "\<forall>w. fst (g frame w) = None"
    by (cases c) auto
  let ?s1 = "s\<lparr>fired := fired s @ [(i, frame)], world := snd (g frame (world s))\<rparr>"
  have step: "invoke child_parse frame c s = Some (None, ?s1)"
    using c g by (simp add: Let_def)
  from Cons.prems have "list_all (returning frame) cs" by simp
  from Cons.IH [OF this, of ?s1] obtain s' where
    "for_each (invoke child_parse frame) cs ?s1 = Some (None, s')"
    "fired s' = fired ?s1 @ map (\<lambda>c. (observer_number c, frame)) cs"
    "filters s' = filters ?s1" by blast
  with step c show ?case by simp
qed

subsection \<open>Dispatch leaves the filter objects alone\<close>

lemma leaves_filtersD:
  "leaves_filters run \<Longrightarrow> run s = Some (r, s') \<Longrightarrow> filters s' = filters s"
  by (simp add: leaves_filters_def)

lemma for_each_leaves_filters:
  "\<forall>c\<in>set cs. leaves_filters (f c) \<Longrightarrow> leaves_filters (for_each f cs)"
proof (induction cs)
  case Nil
  then show ?case by (simp add: leaves_filters_def)
next
  case (Cons c cs)
  then have c: "leaves_filters (f c)" and cs: "leaves_filters (for_each f cs)" by simp_all
  show ?case
    unfolding leaves_filters_def
  proof (intro allI impI)
    fix s r s'
    assume run: "for_each f (c # cs) s = Some (r, s')"
    show "filters s' = filters s"
    proof (cases "f c s")
      case None
      with run show ?thesis by simp
    next
      case (Some p)
      show ?thesis
      proof (cases p)
        case (Pair x s1)
        with Some have s1: "filters s1 = filters s" using leaves_filtersD [OF c] by simp
        show ?thesis
        proof (cases x)
          case None
          with Some Pair run have "for_each f cs s1 = Some (r, s')" by simp
          with leaves_filtersD [OF cs] s1 show ?thesis by simp
        next
          case (Some e)
          with \<open>f c s = Some p\<close> Pair run have "s' = s1" by simp
          with s1 show ?thesis by simp
        qed
      qed
    qed
  qed
qed

lemma invoke_leaves_filters:
  "\<forall>a. leaves_filters (child_parse a frame) \<Longrightarrow> leaves_filters (invoke child_parse frame c)"
  by (cases c) (auto simp: leaves_filters_def Let_def)

lemma frame_handled_leaves_filters:
  "\<forall>a. leaves_filters (child_parse a frame) \<Longrightarrow> leaves_filters (frame_handled child_parse f frame)"
  unfolding frame_handled_def
  by (rule for_each_leaves_filters) (simp add: invoke_leaves_filters)

lemma catch_runtime_error_snd: "snd (catch_runtime_error p) = snd p"
  by (cases p rule: catch_runtime_error.cases) simp_all

lemma try_block_leaves_filters:
  assumes "\<And>frame. leaves_filters (handled frame)"
  shows "leaves_filters (\<lambda>s. map_option catch_runtime_error
           (case parsed of Inl e \<Rightarrow> Some (Some e, s) | Inr frame \<Rightarrow> handled frame s))"
  unfolding leaves_filters_def
proof (intro allI impI)
  fix s r s'
  assume "map_option catch_runtime_error
            (case parsed of Inl e \<Rightarrow> Some (Some e, s) | Inr frame \<Rightarrow> handled frame s) = Some (r, s')"
  then obtain p where p: "(case parsed of Inl e \<Rightarrow> Some (Some e, s) | Inr frame \<Rightarrow> handled frame s) = Some p"
    and c: "catch_runtime_error p = (r, s')" by auto
  from c have s': "snd p = s'" using catch_runtime_error_snd [of p] by simp
  show "filters s' = filters s"
  proof (cases parsed)
    case (Inl e)
    with p s' show ?thesis by auto
  next
    case (Inr frame)
    with p have "handled frame s = Some (fst p, snd p)" by simp
    with leaves_filtersD [OF assms] s' show ?thesis by simp
  qed
qed

lemma parse_leaves_filters:
  "leaves_filters (parse n env a parent :: ('t, 'w) memory \<Rightarrow> ('t, 'w) outcome)"
proof (induction n arbitrary: a parent)
  case 0
  show ?case by (simp add: leaves_filters_def)
next
  case (Suc n)
  have fh: "\<And>f frame. leaves_filters
      (frame_handled (parse n env) f frame :: ('t, 'w) memory \<Rightarrow> ('t, 'w) outcome)"
    by (rule frame_handled_leaves_filters) (intro allI Suc.IH)
  show ?case
    unfolding leaves_filters_def
  proof (intro allI impI)
    fix s s' :: "('t, 'w) memory" and r
    assume run: "parse (Suc n) env a parent s = Some (r, s')"
    then obtain f where fa: "filter_at s a = Some f"
      by (auto split: option.splits)
    show "filters s' = filters s"
    proof (cases "frame_parent_match env (frame_type f) parent")
      case False
      with run fa show ?thesis by simp
    next
      case True
      with run fa have
        "map_option catch_runtime_error
           (case frame_parse env (frame_type f) (helper_payload env parent) of
              Inl e \<Rightarrow> Some (Some e, s)
            | Inr frame \<Rightarrow> frame_handled (parse n env) f frame s) = Some (r, s')"
        by simp
      moreover have "leaves_filters (\<lambda>s. map_option catch_runtime_error
           (case frame_parse env (frame_type f) (helper_payload env parent) of
              Inl e \<Rightarrow> Some (Some e, s)
            | Inr frame \<Rightarrow> frame_handled (parse n env) f frame s))"
        by (rule try_block_leaves_filters) (rule fh)
      ultimately show ?thesis
        by (simp add: leaves_filters_def)
    qed
  qed
qed

lemma parse_filters:
  "parse n env a parent s = Some (r, s') \<Longrightarrow> filters s' = filters s"
  using parse_leaves_filters by (rule leaves_filtersD)

lemma parse_root_filters:
  fixes s :: "('t, 'w) memory"
  assumes run: "parse_root n env a buf s = Some (r, s')"
  shows "filters s' = filters s"
proof -
  from run obtain f where fa: "filter_at s a = Some f"
    by (auto simp: parse_root_def split: option.splits)
  have fh: "\<And>frame. leaves_filters
      (frame_handled (parse n env) f frame :: ('t, 'w) memory \<Rightarrow> ('t, 'w) outcome)"
    by (rule frame_handled_leaves_filters) (intro allI parse_leaves_filters)
  from run fa have
    "map_option catch_runtime_error
       (case frame_parse env (frame_type f) buf of
          Inl e \<Rightarrow> Some (Some e, s)
        | Inr frame \<Rightarrow> frame_handled (parse n env) f frame s) = Some (r, s')"
    by (simp add: parse_root_def)
  moreover have "leaves_filters (\<lambda>s. map_option catch_runtime_error
       (case frame_parse env (frame_type f) buf of
          Inl e \<Rightarrow> Some (Some e, s)
        | Inr frame \<Rightarrow> frame_handled (parse n env) f frame s))"
    by (rule try_block_leaves_filters) (rule fh)
  ultimately show ?thesis
    by (simp add: leaves_filters_def)
qed

text \<open>The same for the dispatch of the engine, whose \<open>parse\<close> leaves the filters alone:
  it is enough that the callbacks return from the memories with these filters. The
  callback at each position is called from the memory the callbacks before it have
  left.\<close>

lemma for_each_all_return_on:
  fixes s :: "('t, 'w) memory"
  assumes "\<forall>c\<in>set cs. \<forall>s1 :: ('t, 'w) memory. filters s1 = h \<longrightarrow> (\<exists>s'. f c s1 = Some (None, s'))"
    and "\<forall>c\<in>set cs. leaves_filters (f c)"
    and "filters s = h"
  shows "for_each f cs s = Some (None, foldl (\<lambda>s c. snd (the (f c s))) s cs)"
  using assms
proof (induction cs arbitrary: s)
  case Nil
  then show ?case by simp
next
  case (Cons c cs)
  from Cons.prems(1,3) obtain s1 where s1: "f c s = Some (None, s1)" by auto
  from Cons.prems(2) have "leaves_filters (f c)" by simp
  from leaves_filtersD [OF this s1] Cons.prems(3) have h: "filters s1 = h" by simp
  have "for_each f cs s1 = Some (None, foldl (\<lambda>s c. snd (the (f c s))) s1 cs)"
    using Cons.IH [OF _ _ h] Cons.prems(1,2) by simp
  with s1 show ?case by simp
qed

lemma frame_handled_all_return:
  fixes s :: "('t, 'w) memory"
  assumes "\<forall>c\<in>set (m_callbacks f). \<forall>s1 :: ('t, 'w) memory. filters s1 = filters s \<longrightarrow>
      (\<exists>s'. invoke (parse n env) frame c s1 = Some (None, s'))"
  shows "frame_handled (parse n env) f frame s =
      Some (None, foldl (\<lambda>s c. snd (the (invoke (parse n env) frame c s))) s (m_callbacks f))"
  unfolding frame_handled_def
proof (rule for_each_all_return_on [OF assms _ refl])
  show "\<forall>c\<in>set (m_callbacks f). leaves_filters
      (invoke (parse n env) frame c :: ('t, 'w) memory \<Rightarrow> ('t, 'w) outcome)"
    by (intro ballI invoke_leaves_filters allI parse_leaves_filters)
qed

lemma frame_handled_next:
  assumes "k < length (m_callbacks f)"
    and "frame_handled child_parse (f\<lparr>m_callbacks := take k (m_callbacks f)\<rparr>) frame s = Some (None, s1)"
  shows "frame_handled child_parse (f\<lparr>m_callbacks := take (Suc k) (m_callbacks f)\<rparr>) frame s =
      invoke child_parse frame (m_callbacks f ! k) s1"
  using assms
  by (simp add: frame_handled_def take_Suc_conv_app_nth for_each_append
      split: option.splits prod.splits)

lemma frame_handled_single:
  "frame_handled child_parse (f\<lparr>m_callbacks := [x]\<rparr>) frame s = invoke child_parse frame x s"
  by (simp add: frame_handled_def split: option.splits prod.splits)

subsection \<open>Registration\<close>

lemma add_callback_appends:
  "a < length (filters s) \<Longrightarrow>
   filter_at (add_callback a c s) a =
     Some ((filters s ! a)\<lparr>m_callbacks := m_callbacks (filters s ! a) @ [c]\<rparr>)"
  by (simp add: add_callback_def filter_at_def)

lemma add_callback_others:
  "b \<noteq> a \<Longrightarrow> filter_at (add_callback a c s) b = filter_at s b"
  by (simp add: add_callback_def filter_at_def)

lemma add_callback_keeps: "keeps_callbacks s (add_callback a c s)"
  by (auto simp: keeps_callbacks_def add_callback_def nth_list_update)

lemma new_root_keeps: "keeps_callbacks s (snd (new_root t s))"
  by (auto simp: keeps_callbacks_def new_root_def nth_append)

lemma new_filter_keeps: "keeps_callbacks s (snd (new_filter t p s))"
  by (auto simp: keeps_callbacks_def new_filter_def add_callback_def Let_def nth_append
      nth_list_update)

subsection \<open>Trees of filters\<close>

lemma tree_shaped_iff:
  "tree_shaped s =
     (\<forall>a<length (filters s). \<forall>c\<in>set (m_callbacks (filters s ! a)).
        child_after a (length (filters s)) c)"
proof
  assume ts: "tree_shaped s"
  show "\<forall>a<length (filters s). \<forall>c\<in>set (m_callbacks (filters s ! a)).
        child_after a (length (filters s)) c"
  proof (intro allI impI ballI)
    fix a c
    assume a: "a < length (filters s)" and c: "c \<in> set (m_callbacks (filters s ! a))"
    from a have "(a, filters s ! a) \<in> set (enumerate 0 (filters s))"
      by (simp add: in_set_enumerate_eq)
    with ts have "list_all (child_after a (length (filters s))) (m_callbacks (filters s ! a))"
      by (auto simp: tree_shaped_def list_all_iff)
    with c show "child_after a (length (filters s)) c" by (simp add: list_all_iff)
  qed
next
  assume "\<forall>a<length (filters s). \<forall>c\<in>set (m_callbacks (filters s ! a)).
        child_after a (length (filters s)) c"
  then show "tree_shaped s"
    by (auto simp: tree_shaped_def list_all_iff in_set_enumerate_eq)
qed

lemma child_after_mono: "child_after a n c \<Longrightarrow> n \<le> m \<Longrightarrow> child_after a m c"
  by (cases c) auto

text \<open>The constructors and the registration of observers build trees only.\<close>

lemma tree_shaped_empty: "tree_shaped \<lparr>filters = [], fired = l, world = w\<rparr>"
  by (simp add: tree_shaped_def)

lemma tree_shaped_new_root:
  assumes "tree_shaped s"
  shows "tree_shaped (snd (new_root t s))"
  unfolding tree_shaped_iff
proof (intro allI impI ballI)
  fix a c
  assume a: "a < length (filters (snd (new_root t s)))"
    and c: "c \<in> set (m_callbacks (filters (snd (new_root t s)) ! a))"
  from a c have a': "a < length (filters s)"
    by (cases "a = length (filters s)") (auto simp: new_root_def)
  with c have "c \<in> set (m_callbacks (filters s ! a))"
    by (simp add: new_root_def nth_append)
  with assms a' have "child_after a (length (filters s)) c"
    by (simp add: tree_shaped_iff)
  then show "child_after a (length (filters (snd (new_root t s)))) c"
    by (rule child_after_mono) (simp add: new_root_def)
qed

lemma tree_shaped_add_observer:
  "tree_shaped s \<Longrightarrow> tree_shaped (add_callback a (Observer i g) s)"
  by (auto simp: tree_shaped_iff add_callback_def nth_list_update)

lemma tree_shaped_new_filter:
  assumes "tree_shaped s" and "parent < length (filters s)"
  shows "tree_shaped (snd (new_filter t parent s))"
proof -
  let ?n = "length (filters s)"
  let ?s' = "snd (new_filter t parent s)"
  have len: "length (filters ?s') = Suc ?n"
    by (simp add: new_filter_def add_callback_def Let_def)
  have cbs: "m_callbacks (filters ?s' ! a) =
      (if a = parent then m_callbacks (filters s ! a) @ [Bound_parse ?n]
       else if a < ?n then m_callbacks (filters s ! a) else [])" if "a < Suc ?n" for a
    using that assms(2)
    by (auto simp: new_filter_def add_callback_def Let_def nth_list_update nth_append)
  show ?thesis
    unfolding tree_shaped_iff len
  proof (intro allI impI ballI)
    fix a c
    assume a: "a < Suc ?n" and c: "c \<in> set (m_callbacks (filters ?s' ! a))"
    from c cbs [OF a] have old_or_new:
      "(a < ?n \<and> c \<in> set (m_callbacks (filters s ! a))) \<or> (a = parent \<and> c = Bound_parse ?n)"
      using assms(2) by (auto split: if_splits)
    then show "child_after a (Suc ?n) c"
    proof
      assume "a < ?n \<and> c \<in> set (m_callbacks (filters s ! a))"
      with assms(1) have "child_after a ?n c" by (simp add: tree_shaped_iff)
      then show ?thesis by (rule child_after_mono) simp
    next
      assume "a = parent \<and> c = Bound_parse ?n"
      with assms(2) show ?thesis by simp
    qed
  qed
qed

lemma tree_shapedD:
  "tree_shaped s \<Longrightarrow> filter_at s a = Some f \<Longrightarrow> Bound_parse c \<in> set (m_callbacks f) \<Longrightarrow>
   a < c \<and> c < length (filters s)"
proof -
  assume ts: "tree_shaped s" and fa: "filter_at s a = Some f"
    and c: "Bound_parse c \<in> set (m_callbacks f)"
  from fa have a: "a < length (filters s)" and f: "f = filters s ! a"
    by (auto simp: filter_at_def split: if_splits)
  then have "(a, f) \<in> set (enumerate 0 (filters s))"
    by (simp add: in_set_enumerate_eq)
  with ts have "list_all (child_after a (length (filters s))) (m_callbacks f)"
    by (auto simp: tree_shaped_def list_all_iff)
  then have "\<forall>x\<in>set (m_callbacks f). child_after a (length (filters s)) x"
    by (simp add: list_all_iff)
  from bspec [OF this c] show ?thesis by simp
qed

lemma steady_observers_at:
  "steady_observers s \<Longrightarrow> filter_at s a = Some f \<Longrightarrow> list_all steady (m_callbacks f)"
  by (auto simp: steady_observers_def filter_at_def list_all_iff split: if_splits)

subsection \<open>On a tree, every call has an outcome\<close>

text \<open>The recursion budget is enough as soon as it is at least the number of filter
  objects: a child lies at a higher address than its parent.\<close>

lemma for_each_returns:
  fixes s :: "('t, 'w) memory"
  assumes "\<And>c (s :: ('t, 'w) memory). c \<in> set cs \<Longrightarrow> filters s = h \<Longrightarrow>
      \<exists>r s'. f c s = Some (r, s') \<and> filters s' = h"
    and "filters s = h"
  shows "\<exists>r s'. for_each f cs s = Some (r, s') \<and> filters s' = h"
  using assms
proof (induction cs arbitrary: s)
  case Nil
  then show ?case by simp
next
  case (Cons c cs)
  from Cons.prems(1) [of c s] Cons.prems(2) obtain r s1
    where s1: "f c s = Some (r, s1)" "filters s1 = h" by auto
  show ?case
  proof (cases r)
    case (Some e)
    with s1 show ?thesis by simp
  next
    case None
    from Cons.IH [of s1] Cons.prems(1) s1(2)
    obtain r' s' where "for_each f cs s1 = Some (r', s')" "filters s' = h" by auto
    with None s1 show ?thesis by simp
  qed
qed

lemma frame_handled_returns:
  fixes s :: "('t, 'w) memory"
  assumes ts: "tree_shaped s0" and fa: "filter_at s0 a = Some f"
    and children: "\<And>c frame (s :: ('t, 'w) memory). a < c \<Longrightarrow> c < length (filters s0) \<Longrightarrow>
      filters s = filters s0 \<Longrightarrow> \<exists>r s'. parse n env c frame s = Some (r, s')"
    and s: "filters s = filters s0"
  shows "\<exists>r s'. frame_handled (parse n env) f frame s = Some (r, s')"
proof -
  have "\<exists>r s'. for_each (invoke (parse n env) frame) (m_callbacks f) s = Some (r, s')
      \<and> filters s' = filters s0"
  proof (rule for_each_returns [OF _ s])
    fix c and s1 :: "('t, 'w) memory"
    assume c: "c \<in> set (m_callbacks f)" and s1: "filters s1 = filters s0"
    show "\<exists>r s'. invoke (parse n env) frame c s1 = Some (r, s') \<and> filters s' = filters s0"
    proof (cases c)
      case (Observer i g)
      with s1 show ?thesis by (simp add: Let_def)
    next
      case (Bound_parse c')
      with c tree_shapedD [OF ts fa] have "a < c'" "c' < length (filters s0)" by simp_all
      from children [OF this s1] obtain r s' where
        run: "parse n env c' frame s1 = Some (r, s')" by blast
      from parse_filters [OF run] s1 have "filters s' = filters s0" by simp
      with run Bound_parse show ?thesis by simp
    qed
  qed
  then show ?thesis by (auto simp: frame_handled_def)
qed

lemma parse_returns:
  fixes s :: "('t, 'w) memory"
  assumes "tree_shaped s0" and "a < length (filters s0)" and "length (filters s0) \<le> n + a"
    and "filters s = filters s0"
  shows "\<exists>r s'. parse n env a parent s = Some (r, s')"
  using assms(2-)
proof (induction n arbitrary: a parent s)
  case 0
  then show ?case by simp
next
  case (Suc n)
  let ?f = "filters s0 ! a"
  have fa0: "filter_at s0 a = Some ?f" using Suc.prems(1) by (simp add: filter_at_def)
  have fa: "filter_at s a = Some ?f" using Suc.prems(1,3) by (simp add: filter_at_def)
  have handled: "\<exists>r s'. frame_handled (parse n env) ?f frame s = Some (r, s')" for frame
  proof (rule frame_handled_returns [OF assms(1) fa0 _ Suc.prems(3)])
    fix c frame' and s1 :: "('t, 'w) memory"
    assume "a < c" "c < length (filters s0)" "filters s1 = filters s0"
    with Suc.prems(2) show "\<exists>r s'. parse n env c frame' s1 = Some (r, s')"
      by (intro Suc.IH) simp_all
  qed
  show ?case
  proof (cases "frame_parent_match env (frame_type ?f) parent")
    case False
    with fa show ?thesis by simp
  next
    case True
    show ?thesis
    proof (cases "frame_parse env (frame_type ?f) (helper_payload env parent)")
      case (Inl e)
      with fa True show ?thesis by simp
    next
      case (Inr frame)
      from handled [of frame] obtain r s' where
        "frame_handled (parse n env) ?f frame s = Some (r, s')" by blast
      with fa True Inr show ?thesis by simp
    qed
  qed
qed

lemma parse_root_returns:
  fixes s :: "('t, 'w) memory"
  assumes "tree_shaped s" and "a < length (filters s)" and "length (filters s) \<le> n"
  shows "\<exists>r s'. parse_root n env a buf s = Some (r, s')"
proof -
  let ?f = "filters s ! a"
  have fa: "filter_at s a = Some ?f" using assms(2) by (simp add: filter_at_def)
  have handled: "\<exists>r s'. frame_handled (parse n env) ?f frame s = Some (r, s')" for frame
  proof (rule frame_handled_returns [OF assms(1) fa _ refl])
    fix c frame' and s1 :: "('t, 'w) memory"
    assume "a < c" "c < length (filters s)" "filters s1 = filters s"
    with assms(1,3) show "\<exists>r s'. parse n env c frame' s1 = Some (r, s')"
      by (intro parse_returns) simp_all
  qed
  show ?thesis
  proof (cases "frame_parse env (frame_type ?f) buf")
    case (Inl e)
    with fa show ?thesis by (simp add: parse_root_def)
  next
    case (Inr frame)
    from handled [of frame] obtain r s' where
      "frame_handled (parse n env) ?f frame s = Some (r, s')" by blast
    with fa Inr show ?thesis by (simp add: parse_root_def)
  qed
qed

subsection \<open>Runs from two memories with the same filters\<close>

lemma same_calls_SomeI:
  "filters s' = filters s \<Longrightarrow> filters t' = filters t \<Longrightarrow>
   fired s' = fired s @ calls \<Longrightarrow> fired t' = fired t @ calls \<Longrightarrow>
   same_calls s t (Some (r, s')) (Some (r, t'))"
  by (auto simp: same_calls_def)

lemma same_calls_invoke:
  fixes s t :: "('t, 'w) memory"
  assumes "steady c"
    and "\<And>a. same_calls s t (child_parse a frame s) (child_parse a frame t)"
    and "filters s = filters t"
  shows "same_calls s t (invoke child_parse frame c s) (invoke child_parse frame c t)"
proof (cases c)
  case (Observer i g)
  with assms(1) have "fst (g frame (world s)) = fst (g frame (world t))" by simp
  with Observer assms(3) show ?thesis
    by (simp add: Let_def same_calls_def)
next
  case (Bound_parse a)
  with assms(2) show ?thesis by simp
qed

lemma same_calls_for_each:
  fixes s t :: "('t, 'w) memory"
  assumes "\<And>c (s :: ('t, 'w) memory) t. c \<in> set cs \<Longrightarrow> filters s = h \<Longrightarrow> filters t = h \<Longrightarrow>
           same_calls s t (f c s) (f c t)"
    and "filters s = h" and "filters t = h"
  shows "same_calls s t (for_each f cs s) (for_each f cs t)"
  using assms
proof (induction cs arbitrary: s t)
  case Nil
  then show ?case by (simp add: same_calls_def)
next
  case (Cons c cs)
  have step: "same_calls s t (f c s) (f c t)"
    using Cons.prems by simp
  show ?case
  proof (cases "f c s")
    case None
    with step show ?thesis by (simp add: same_calls_def)
  next
    case (Some p)
    obtain r s1 where p: "p = (r, s1)" by (cases p)
    from step Some p obtain t1 calls where t1: "f c t = Some (r, t1)"
      and fs: "filters s1 = filters s" "filters t1 = filters t"
      and c1: "fired s1 = fired s @ calls" "fired t1 = fired t @ calls"
      by (auto simp: same_calls_def split: option.splits)
    show ?thesis
    proof (cases r)
      case (Some e)
      with \<open>f c s = Some p\<close> p t1 fs c1 show ?thesis
        by (simp add: same_calls_def)
    next
      case None
      have rest: "same_calls s1 t1 (for_each f cs s1) (for_each f cs t1)"
        using Cons.IH [of s1 t1] Cons.prems fs by simp
      have unfold: "for_each f (c # cs) s = for_each f cs s1"
        "for_each f (c # cs) t = for_each f cs t1"
        using None \<open>f c s = Some p\<close> p t1 by simp_all
      show ?thesis
      proof (cases "for_each f cs s1")
        case None
        with rest unfold show ?thesis by (simp add: same_calls_def)
      next
        case (Some q)
        obtain r' s' where q: "q = (r', s')" by (cases q)
        from rest Some q obtain t' calls' where t': "for_each f cs t1 = Some (r', t')"
          and fs': "filters s' = filters s1" "filters t' = filters t1"
          and c2: "fired s' = fired s1 @ calls'" "fired t' = fired t1 @ calls'"
          by (auto simp: same_calls_def split: option.splits)
        have "same_calls s t (Some (r', s')) (Some (r', t'))"
          by (rule same_calls_SomeI [where calls = "calls @ calls'"])
             (simp_all add: fs fs' c1 c2)
        with unfold Some q t' show ?thesis by simp
      qed
    qed
  qed
qed

lemma same_calls_catch:
  "same_calls s t x y \<Longrightarrow>
   same_calls s t (map_option catch_runtime_error x) (map_option catch_runtime_error y)"
proof (cases x)
  case None
  assume "same_calls s t x y"
  with None show ?thesis by (simp add: same_calls_def)
next
  case (Some p)
  assume sc: "same_calls s t x y"
  obtain r s' where p: "p = (r, s')" by (cases p)
  from sc Some p obtain t' where y: "y = Some (r, t')"
    by (auto simp: same_calls_def split: option.splits)
  from sc Some p y show ?thesis
    by (cases "(r, s')" rule: catch_runtime_error.cases) (auto simp: same_calls_def)
qed

lemma same_calls_try_block:
  fixes s t :: "('t, 'w) memory"
  assumes "\<And>frame. same_calls s t (handled frame s) (handled frame t)"
    and "filters s = filters t"
  shows "same_calls s t
      (map_option catch_runtime_error
         (case parsed of Inl e \<Rightarrow> Some (Some e, s) | Inr frame \<Rightarrow> handled frame s))
      (map_option catch_runtime_error
         (case parsed of Inl e \<Rightarrow> Some (Some e, t) | Inr frame \<Rightarrow> handled frame t))"
proof (rule same_calls_catch, cases parsed)
  case (Inl e)
  then show "same_calls s t
      (case parsed of Inl e \<Rightarrow> Some (Some e, s) | Inr frame \<Rightarrow> handled frame s)
      (case parsed of Inl e \<Rightarrow> Some (Some e, t) | Inr frame \<Rightarrow> handled frame t)"
    by (simp add: same_calls_def)
next
  case (Inr frame)
  with assms(1) [of frame] show "same_calls s t
      (case parsed of Inl e \<Rightarrow> Some (Some e, s) | Inr frame \<Rightarrow> handled frame s)
      (case parsed of Inl e \<Rightarrow> Some (Some e, t) | Inr frame \<Rightarrow> handled frame t)"
    by simp
qed

lemma same_calls_frame_handled:
  fixes s t :: "('t, 'w) memory"
  assumes "list_all steady (m_callbacks f)"
    and "\<And>a (s :: ('t, 'w) memory) t. filters s = h \<Longrightarrow> filters t = h \<Longrightarrow>
           same_calls s t (child_parse a frame s) (child_parse a frame t)"
    and "filters s = h" and "filters t = h"
  shows "same_calls s t (frame_handled child_parse f frame s) (frame_handled child_parse f frame t)"
  unfolding frame_handled_def
proof (rule same_calls_for_each [OF _ assms(3,4)])
  fix c and s t :: "('t, 'w) memory"
  assume "c \<in> set (m_callbacks f)" and st: "filters s = h" "filters t = h"
  with assms(1) have "steady c" by (simp add: list_all_iff)
  then show "same_calls s t (invoke child_parse frame c s) (invoke child_parse frame c t)"
    using assms(2) [OF st] st by (intro same_calls_invoke) simp_all
qed

lemma same_calls_parse:
  fixes s t :: "('t, 'w) memory"
  assumes "steady_observers s" and "filters s = filters t"
  shows "same_calls s t (parse n env a parent s) (parse n env a parent t)"
  using assms
proof (induction n arbitrary: a parent s t)
  case 0
  show ?case by (simp add: same_calls_def)
next
  case (Suc n)
  have eq: "filter_at t a = filter_at s a"
    using Suc.prems(2) by (simp add: filter_at_def)
  show ?case
  proof (cases "filter_at s a")
    case None
    with eq show ?thesis by (simp add: same_calls_def)
  next
    case (Some f)
    have st: "list_all steady (m_callbacks f)"
      using Suc.prems(1) Some by (rule steady_observers_at)
    have children: "same_calls s1 t1 (parse n env a1 frame s1) (parse n env a1 frame t1)"
      if "filters s1 = filters s" "filters t1 = filters s"
      for a1 frame and s1 t1 :: "('t, 'w) memory"
    proof -
      from that(1) Suc.prems(1) have "steady_observers s1"
        by (simp add: steady_observers_def)
      moreover from that have "filters s1 = filters t1" by simp
      ultimately show ?thesis by (rule Suc.IH)
    qed
    have handled: "same_calls s t (frame_handled (parse n env) f frame s)
        (frame_handled (parse n env) f frame t)" for frame
    proof (rule same_calls_frame_handled [where h = "filters s", OF st])
      show "filters s = filters s" by (rule refl)
      show "filters t = filters s" using Suc.prems(2) by simp
    qed (rule children)
    show ?thesis
    proof (cases "frame_parent_match env (frame_type f) parent")
      case False
      with Some eq Suc.prems(2) show ?thesis by (simp add: same_calls_def)
    next
      case True
      have "same_calls s t
        (map_option catch_runtime_error
           (case frame_parse env (frame_type f) (helper_payload env parent) of
              Inl e \<Rightarrow> Some (Some e, s)
            | Inr frame \<Rightarrow> frame_handled (parse n env) f frame s))
        (map_option catch_runtime_error
           (case frame_parse env (frame_type f) (helper_payload env parent) of
              Inl e \<Rightarrow> Some (Some e, t)
            | Inr frame \<Rightarrow> frame_handled (parse n env) f frame t))"
        using handled Suc.prems(2) by (rule same_calls_try_block)
      with Some eq True show ?thesis by simp
    qed
  qed
qed

lemma same_calls_parse_root:
  fixes s t :: "('t, 'w) memory"
  assumes "steady_observers s" and "filters s = filters t"
  shows "same_calls s t (parse_root n env a buf s) (parse_root n env a buf t)"
proof -
  have eq: "filter_at t a = filter_at s a"
    using assms(2) by (simp add: filter_at_def)
  show ?thesis
  proof (cases "filter_at s a")
    case None
    with eq show ?thesis by (simp add: same_calls_def parse_root_def)
  next
    case (Some f)
    have st: "list_all steady (m_callbacks f)"
      using assms(1) Some by (rule steady_observers_at)
    have children: "same_calls s1 t1 (parse n env a1 frame s1) (parse n env a1 frame t1)"
      if "filters s1 = filters s" "filters t1 = filters s"
      for a1 frame and s1 t1 :: "('t, 'w) memory"
    proof -
      from that(1) assms(1) have "steady_observers s1"
        by (simp add: steady_observers_def)
      moreover from that have "filters s1 = filters t1" by simp
      ultimately show ?thesis by (rule same_calls_parse)
    qed
    have handled: "same_calls s t (frame_handled (parse n env) f frame s)
        (frame_handled (parse n env) f frame t)" for frame
    proof (rule same_calls_frame_handled [where h = "filters s", OF st])
      show "filters s = filters s" by (rule refl)
      show "filters t = filters s" using assms(2) by simp
    qed (rule children)
    have "same_calls s t
        (map_option catch_runtime_error
           (case frame_parse env (frame_type f) buf of
              Inl e \<Rightarrow> Some (Some e, s)
            | Inr frame \<Rightarrow> frame_handled (parse n env) f frame s))
        (map_option catch_runtime_error
           (case frame_parse env (frame_type f) buf of
              Inl e \<Rightarrow> Some (Some e, t)
            | Inr frame \<Rightarrow> frame_handled (parse n env) f frame t))"
      using handled assms(2) by (rule same_calls_try_block)
    with Some eq show ?thesis by (simp add: parse_root_def)
  qed
qed

subsection \<open>The concrete memories, written out\<close>

lemmas build_defs = new_root_def new_filter_def add_callback_def empty_memory_def Let_def

lemma demo_root_eq:
  "demo_root = \<lparr>filters = [\<lparr>frame_type = Hdr4, m_callbacks = [Observer 1 returns]\<rparr>],
                 fired = [], world = 0\<rparr>"
  by (simp add: demo_root_def build_defs)

lemma demo_fanout_eq:
  "demo_fanout = \<lparr>filters = [\<lparr>frame_type = Hdr4, m_callbacks = [Bound_parse 1, Bound_parse 2]\<rparr>,
                              \<lparr>frame_type = ProtoA, m_callbacks = [Observer 1 returns]\<rparr>,
                              \<lparr>frame_type = ProtoB, m_callbacks = [Observer 2 returns]\<rparr>],
                   fired = [], world = 0\<rparr>"
  by (simp add: demo_fanout_def build_defs)

lemma demo_raising_eq:
  "demo_raising g = \<lparr>filters = [\<lparr>frame_type = Hdr4, m_callbacks = [Bound_parse 1, Observer 4 returns]\<rparr>,
                              \<lparr>frame_type = ProtoB, m_callbacks = [Observer 2 g, Observer 3 returns]\<rparr>],
                   fired = [], world = 0\<rparr>"
  by (simp add: demo_raising_def build_defs)

lemma observers_first_eq:
  "observers_first t1 t2 t3 o1 o2 o3 \<lparr>filters = [], fired = [], world = w\<rparr> =
     \<lparr>filters = [\<lparr>frame_type = t1, m_callbacks = [o1, Bound_parse 1]\<rparr>,
                 \<lparr>frame_type = t2, m_callbacks = [o2, Bound_parse 2]\<rparr>,
                 \<lparr>frame_type = t3, m_callbacks = [o3]\<rparr>],
      fired = [], world = w\<rparr>"
  by (simp add: observers_first_def build_defs)

lemma filters_first_eq:
  "filters_first t1 t2 t3 o1 o2 o3 \<lparr>filters = [], fired = [], world = w\<rparr> =
     \<lparr>filters = [\<lparr>frame_type = t1, m_callbacks = [Bound_parse 1, o1]\<rparr>,
                 \<lparr>frame_type = t2, m_callbacks = [Bound_parse 2, o2]\<rparr>,
                 \<lparr>frame_type = t3, m_callbacks = [o3]\<rparr>],
      fired = [], world = w\<rparr>"
  by (simp add: filters_first_def build_defs)

lemma demo_tree_eq:
  "demo_tree = \<lparr>filters = [\<lparr>frame_type = Hdr4, m_callbacks = [Observer 1 returns, Bound_parse 1]\<rparr>,
                 \<lparr>frame_type = ProtoB, m_callbacks = [Observer 2 returns, Bound_parse 2]\<rparr>,
                 \<lparr>frame_type = ProtoC, m_callbacks = [Observer 3 returns]\<rparr>],
      fired = [], world = 0\<rparr>"
  by (simp add: demo_tree_def observers_first_eq empty_memory_def)

lemmas run_defs = parse_root_def filter_at_def frame_handled_def frame_parse_def frame_cast_def
  demo_def demo_buf_def returns_def Let_def

section \<open>Properties of the filters\<close>

text \<open>
  Claim C3. For every buffer on which \<open>frame_parse\<close> fails, whether the frame is too
  small or malformed, \<open>parse\<close> of a root filter returns and nothing can be observed:
  the outcome carries no exception and the memory is the one before the call, so no
  callback has been called (the log and the user's data are the same) and the vector
  of callbacks of every filter is the same.
\<close>

theorem parse_root_failure_silent:
  assumes "filter_at s a = Some f" and "frame_parse env (frame_type f) buf = Inl e"
  shows "parse_root n env a buf s = Some (None, s)"
proof -
  from frame_parse_Inl_runtime_error [OF assms(2)] obtain m where "e = runtime_error m" ..
  with assms show ?thesis by (simp add: parse_root_def)
qed

text \<open>A root filter with one observer, on a buffer of three bytes and on a buffer of
  four bytes with a wrong first byte.\<close>

theorem parse_root_failure_silent_witness:
  "parse_root 1 demo 0 [4, 7, 0] demo_root = Some (None, demo_root)
   \<and> parse_root 1 demo 0 [0, 7, 0, 0] demo_root = Some (None, demo_root)"
proof -
  have f: "filter_at demo_root 0 = Some \<lparr>frame_type = Hdr4, m_callbacks = [Observer 1 returns]\<rparr>"
    by (simp add: demo_root_eq filter_at_def)
  have small: "frame_parse demo (frame_type \<lparr>frame_type = Hdr4, m_callbacks = [Observer 1 returns]\<rparr>)
      [4, 7, 0] = Inl TooSmall"
    by (simp add: frame_parse_def frame_cast_def demo_def)
  have bad: "frame_parse demo (frame_type \<lparr>frame_type = Hdr4, m_callbacks = [Observer 1 returns]\<rparr>)
      [0, 7, 0, 0] = Inl Malformed"
    by (simp add: frame_parse_def frame_cast_def demo_def)
  from parse_root_failure_silent [OF f small] parse_root_failure_silent [OF f bad]
  show ?thesis by simp
qed

text \<open>
  Claim C4. Let the frame of a parent satisfy \<open>frame_parent_match\<close> for two of its
  child filters A and B, let \<open>frame_parse\<close> of the payload fail for the type of A and
  succeed for the type of B. Then \<open>parse\<close> of A returns without an exception and with
  the memory unchanged, so that no observer of A is called; \<open>parse\<close> of B dispatches
  the frame it has parsed to the callbacks of B, and when these are observers that
  return, each of them is logged, in order; and in the dispatch of the parent, the
  outcome with the callback of A in the vector is the outcome without it: the
  callbacks before and after A are called as if A was not there, in the same order.
\<close>

theorem failing_sibling_isolated:
  fixes s :: "('t, 'w) memory"
  assumes A: "filter_at s a = Some fa" "frame_parent_match env (frame_type fa) parent"
      "frame_parse env (frame_type fa) (helper_payload env parent) = Inl e"
    and B: "filter_at s b = Some fb" "frame_parent_match env (frame_type fb) parent"
      "frame_parse env (frame_type fb) (helper_payload env parent) = Inr frame"
  shows "parse (Suc n) env a parent s = Some (None, s)
    \<and> parse (Suc n) env b parent s =
        map_option catch_runtime_error (frame_handled (parse n env) fb frame s)
    \<and> (list_all (returning frame) (m_callbacks fb) \<longrightarrow>
         (\<exists>s'. parse (Suc n) env b parent s = Some (None, s')
              \<and> fired s' = fired s @ map (\<lambda>c. (observer_number c, frame)) (m_callbacks fb)))
    \<and> for_each (invoke (parse (Suc n) env) parent) (before @ Bound_parse a # after) s =
        for_each (invoke (parse (Suc n) env) parent) (before @ after) s"
proof (intro conjI impI)
  from frame_parse_Inl_runtime_error [OF A(3)] obtain m where m: "e = runtime_error m" ..
  have noop: "parse (Suc n) env a parent s1 = Some (None, s1)"
    if "filters s1 = filters s" for s1 :: "('t, 'w) memory"
  proof -
    from that A(1) have "filter_at s1 a = Some fa" by (simp add: filter_at_def split: if_splits)
    with A(2,3) m show ?thesis by simp
  qed
  from noop [of s] show "parse (Suc n) env a parent s = Some (None, s)" by simp
  from B show pb: "parse (Suc n) env b parent s =
      map_option catch_runtime_error (frame_handled (parse n env) fb frame s)"
    by simp
  show "for_each (invoke (parse (Suc n) env) parent) (before @ Bound_parse a # after) s =
        for_each (invoke (parse (Suc n) env) parent) (before @ after) s"
  proof (cases "for_each (invoke (parse (Suc n) env) parent) before s")
    case None
    then show ?thesis by (simp add: for_each_append)
  next
    case (Some p)
    obtain x s1 where p: "p = (x, s1)" by (cases p)
    have "leaves_filters (for_each (invoke (parse (Suc n) env) parent) before
        :: ('t, 'w) memory \<Rightarrow> ('t, 'w) outcome)"
      by (intro for_each_leaves_filters ballI invoke_leaves_filters allI parse_leaves_filters)
    from leaves_filtersD [OF this] Some p have "filters s1 = filters s" by simp
    from noop [OF this] Some p show ?thesis
      by (cases x) (simp_all add: for_each_append)
  qed
  assume "list_all (returning frame) (m_callbacks fb)"
  from for_each_returning [OF this, of "parse n env" s] pb
  show "\<exists>s'. parse (Suc n) env b parent s = Some (None, s')
      \<and> fired s' = fired s @ map (\<lambda>c. (observer_number c, frame)) (m_callbacks fb)"
    by (auto simp: frame_handled_def)
qed

text \<open>The payload of \<open>demo_buf\<close> is announced as \<open>ProtoA\<close> and as \<open>ProtoB\<close>, is a
  malformed \<open>ProtoA\<close> and a well-formed \<open>ProtoB\<close>: only observer 2, of the filter on
  \<open>ProtoB\<close>, is called.\<close>

theorem failing_sibling_isolated_witness:
  "parse 1 demo 1 (const_helper Hdr4 demo_buf) demo_fanout = Some (None, demo_fanout)
   \<and> parse 1 demo 2 (const_helper Hdr4 demo_buf) demo_fanout =
       Some (None, demo_fanout\<lparr>fired := [(2, const_helper ProtoB [11, 1, 12])], world := 1\<rparr>)
   \<and> for_each (invoke (parse 1 demo) (const_helper Hdr4 demo_buf)) [Bound_parse 1, Bound_parse 2]
        demo_fanout =
      for_each (invoke (parse 1 demo) (const_helper Hdr4 demo_buf)) [Bound_parse 2] demo_fanout
   \<and> parse_root 1 demo 0 demo_buf demo_fanout =
       Some (None, demo_fanout\<lparr>fired := [(2, const_helper ProtoB [11, 1, 12])], world := 1\<rparr>)"
proof -
  let ?parent = "const_helper Hdr4 demo_buf"
  let ?fa = "\<lparr>frame_type = ProtoA, m_callbacks = [Observer 1 returns]\<rparr>"
  let ?fb = "\<lparr>frame_type = ProtoB, m_callbacks = [Observer 2 returns]\<rparr>"
  have A: "filter_at demo_fanout 1 = Some ?fa" "frame_parent_match demo (frame_type ?fa) ?parent"
    "frame_parse demo (frame_type ?fa) (helper_payload demo ?parent) = Inl Malformed"
    by (simp_all add: demo_fanout_eq run_defs)
  have B: "filter_at demo_fanout 2 = Some ?fb" "frame_parent_match demo (frame_type ?fb) ?parent"
    "frame_parse demo (frame_type ?fb) (helper_payload demo ?parent)
       = Inr (const_helper ProtoB [11, 1, 12])"
    by (simp_all add: demo_fanout_eq run_defs)
  have R: "list_all (returning (const_helper ProtoB [11, 1, 12])) (m_callbacks ?fb)"
    by (simp add: returns_def)
  from failing_sibling_isolated [OF A B, of 0 "[]" "[Bound_parse 2]"] R
  show ?thesis
    by (simp add: demo_fanout_eq run_defs)
qed

text \<open>
  Claim C5, amended. Take a tree of three levels, root, L2 under the root and L3
  under L2, each with one observer that returns, where the observer of the root was
  registered before L2 was constructed and the observer of L2 before L3 was
  constructed. A buffer that parses at the three nested levels makes one call of
  \<open>parse\<close> on the root call the observer of the root, the observer of L2 and the
  observer of L3, in that order, once each, with the frames of their levels.
\<close>

theorem three_levels_observers_first:
  assumes "frame_parse env t1 buf = Inr v1"
    and "frame_parent_match env t2 v1"
    and "frame_parse env t2 (helper_payload env v1) = Inr v2"
    and "frame_parent_match env t3 v2"
    and "frame_parse env t3 (helper_payload env v2) = Inr v3"
    and "\<forall>w. fst (g1 v1 w) = None" and "\<forall>w. fst (g2 v2 w) = None"
    and "\<forall>w. fst (g3 v3 w) = None"
    and "s = observers_first t1 t2 t3 (Observer i1 g1) (Observer i2 g2) (Observer i3 g3)
               \<lparr>filters = [], fired = [], world = w0\<rparr>"
  shows "\<exists>s'. parse_root (Suc (Suc n)) env 0 buf s = Some (None, s')
            \<and> fired s' = [(i1, v1), (i2, v2), (i3, v3)]"
  using assms
  by (simp add: observers_first_eq parse_root_def filter_at_def frame_handled_def Let_def)

theorem three_levels_observers_first_witness:
  "\<exists>s'. parse_root 2 demo 0 demo_buf demo_tree = Some (None, s')
      \<and> fired s' = [(1, const_helper Hdr4 demo_buf), (2, const_helper ProtoB [11, 1, 12]),
            (3, const_helper ProtoC [12])]"
proof -
  have "frame_parse demo Hdr4 demo_buf = Inr (const_helper Hdr4 demo_buf)"
    and "frame_parent_match demo ProtoB (const_helper Hdr4 demo_buf)"
    and "frame_parse demo ProtoB (helper_payload demo (const_helper Hdr4 demo_buf))
          = Inr (const_helper ProtoB [11, 1, 12])"
    and "frame_parent_match demo ProtoC (const_helper ProtoB [11, 1, 12])"
    and "frame_parse demo ProtoC (helper_payload demo (const_helper ProtoB [11, 1, 12]))
          = Inr (const_helper ProtoC [12])"
    and "\<forall>w. fst (returns (const_helper Hdr4 demo_buf) w) = None"
    and "\<forall>w. fst (returns (const_helper ProtoB [11, 1, 12]) w) = None"
    and "\<forall>w. fst (returns (const_helper ProtoC [12]) w) = None"
    and "demo_tree = observers_first Hdr4 ProtoB ProtoC
           (Observer 1 returns) (Observer 2 returns) (Observer 3 returns)
           \<lparr>filters = [], fired = [], world = 0\<rparr>"
    by (simp_all add: run_defs demo_tree_def empty_memory_def)
  from three_levels_observers_first [OF this, of 0] show ?thesis
    by (simp add: numeral_2_eq_2)
qed

text \<open>The order among the callbacks of one filter is the order of registration, and
  the \<open>parse\<close> of a child is one of the callbacks of its parent, registered when the
  child is constructed. When the three filters are constructed first and their
  observers are added afterwards, the same buffer reaches the observer of L3 first,
  then the observer of L2, then the observer of the root.\<close>

theorem three_levels_filters_first_counterexample:
  "parse_root 2 demo 0 demo_buf
      (filters_first Hdr4 ProtoB ProtoC
         (Observer 1 returns) (Observer 2 returns) (Observer 3 returns) empty_memory) =
   Some (None,
     (filters_first Hdr4 ProtoB ProtoC
         (Observer 1 returns) (Observer 2 returns) (Observer 3 returns) empty_memory)
       \<lparr>fired := [(3, const_helper ProtoC [12]), (2, const_helper ProtoB [11, 1, 12]),
                  (1, const_helper Hdr4 demo_buf)], world := 3\<rparr>)"
  by (simp add: filters_first_eq empty_memory_def run_defs numeral_2_eq_2)

text \<open>
  Claim C6. \<open>add_callback\<close> puts the callback at the end of the vector of its filter
  and changes no other filter; no operation of the header takes a callback out of a
  vector or changes the order (\<open>add_callback\<close> and the two constructions keep every
  vector as the beginning of the new one, and \<open>parse\<close> leaves the filters as they
  are). \<open>frame_handled\<close> calls the callbacks of the vector in that order, each on
  the same frame. What calling one callback is: an observer is run on the frame (and
  logged with it); the entry of a child filter is the \<open>parse\<close> of that child on the
  frame. The dispatch over an empty vector does nothing; the dispatch over a vector
  is the dispatch over its first part followed, when that returns, by the dispatch
  over the rest; so at every position of the vector, once the callbacks before it
  have returned, the callback at that position is called on the frame, from the
  memory they have left. When each callback returns, as callbacks are expected to,
  the outcome is that of calling them all one after the other on the frame: for the
  dispatch of the engine, entries of child filters included, it is enough that they
  return from the memories with the filters at hand; and observers are logged in the
  order of the vector, each with the frame.
\<close>

theorem frame_handled_registration_order:
  fixes s :: "('t, 'w) memory"
  shows "(a < length (filters s) \<longrightarrow>
       filter_at (add_callback a c s) a =
         Some ((filters s ! a)\<lparr>m_callbacks := m_callbacks (filters s ! a) @ [c]\<rparr>))
   \<and> (b \<noteq> a \<longrightarrow> filter_at (add_callback a c s) b = filter_at s b)
   \<and> keeps_callbacks s (add_callback a c s)
   \<and> keeps_callbacks s (snd (new_root t s))
   \<and> keeps_callbacks s (snd (new_filter t p s))
   \<and> (parse_root n env a buf s = Some (r, s') \<longrightarrow> filters s' = filters s)
   \<and> frame_handled child_parse (f\<lparr>m_callbacks := []\<rparr>) frame s = Some (None, s)
   \<and> frame_handled child_parse (f\<lparr>m_callbacks := [Observer i g]\<rparr>) frame s =
       Some (fst (g frame (world s)),
             s\<lparr>fired := fired s @ [(i, frame)], world := snd (g frame (world s))\<rparr>)
   \<and> frame_handled child_parse (f\<lparr>m_callbacks := [Bound_parse child]\<rparr>) frame s =
       child_parse child frame s
   \<and> frame_handled child_parse (f\<lparr>m_callbacks := [x]\<rparr>) frame s = invoke child_parse frame x s
   \<and> frame_handled child_parse (f\<lparr>m_callbacks := before @ after\<rparr>) frame s =
       (case frame_handled child_parse (f\<lparr>m_callbacks := before\<rparr>) frame s of
          None \<Rightarrow> None
        | Some (Some e, s1) \<Rightarrow> Some (Some e, s1)
        | Some (None, s1) \<Rightarrow> frame_handled child_parse (f\<lparr>m_callbacks := after\<rparr>) frame s1)
   \<and> (k < length (m_callbacks f)
        \<and> frame_handled child_parse (f\<lparr>m_callbacks := take k (m_callbacks f)\<rparr>) frame s
            = Some (None, sk)
        \<longrightarrow> frame_handled child_parse (f\<lparr>m_callbacks := take (Suc k) (m_callbacks f)\<rparr>) frame s
            = invoke child_parse frame (m_callbacks f ! k) sk)
   \<and> ((\<forall>c\<in>set (m_callbacks f). \<forall>s1 :: ('t, 'w) memory. filters s1 = filters s \<longrightarrow>
          (\<exists>s'. invoke (parse n env) frame c s1 = Some (None, s')))
        \<longrightarrow> frame_handled (parse n env) f frame s =
              Some (None, foldl (\<lambda>s c. snd (the (invoke (parse n env) frame c s))) s (m_callbacks f)))
   \<and> ((\<forall>c\<in>set (m_callbacks f). \<forall>s. \<exists>s'. invoke child_parse frame c s = Some (None, s'))
        \<longrightarrow> frame_handled child_parse f frame s =
              Some (None, foldl (\<lambda>s c. snd (the (invoke child_parse frame c s))) s (m_callbacks f)))
   \<and> (list_all (returning frame) (m_callbacks f)
        \<longrightarrow> (\<exists>s'. frame_handled child_parse f frame s = Some (None, s')
                 \<and> fired s' = fired s @ map (\<lambda>c. (observer_number c, frame)) (m_callbacks f)))"
proof (intro conjI impI)
  assume "\<forall>c\<in>set (m_callbacks f). \<forall>s. \<exists>s'. invoke child_parse frame c s = Some (None, s')"
  then show "frame_handled child_parse f frame s =
      Some (None, foldl (\<lambda>s c. snd (the (invoke child_parse frame c s))) s (m_callbacks f))"
    unfolding frame_handled_def by (rule for_each_all_return)
next
  assume "list_all (returning frame) (m_callbacks f)"
  from for_each_returning [OF this, of child_parse s]
  show "\<exists>s'. frame_handled child_parse f frame s = Some (None, s')
      \<and> fired s' = fired s @ map (\<lambda>c. (observer_number c, frame)) (m_callbacks f)"
    by (auto simp: frame_handled_def)
next
  assume "\<forall>c\<in>set (m_callbacks f). \<forall>s1 :: ('t, 'w) memory. filters s1 = filters s \<longrightarrow>
          (\<exists>s'. invoke (parse n env) frame c s1 = Some (None, s'))"
  then show "frame_handled (parse n env) f frame s =
      Some (None, foldl (\<lambda>s c. snd (the (invoke (parse n env) frame c s))) s (m_callbacks f))"
    by (rule frame_handled_all_return)
next
  assume "k < length (m_callbacks f)
      \<and> frame_handled child_parse (f\<lparr>m_callbacks := take k (m_callbacks f)\<rparr>) frame s
          = Some (None, sk)"
  then show "frame_handled child_parse (f\<lparr>m_callbacks := take (Suc k) (m_callbacks f)\<rparr>) frame s
      = invoke child_parse frame (m_callbacks f ! k) sk"
    by (simp add: frame_handled_next)
next
  show "frame_handled child_parse (f\<lparr>m_callbacks := [Observer i g]\<rparr>) frame s =
       Some (fst (g frame (world s)),
             s\<lparr>fired := fired s @ [(i, frame)], world := snd (g frame (world s))\<rparr>)"
    by (simp add: frame_handled_def Let_def split: option.splits prod.splits)
next
  show "frame_handled child_parse (f\<lparr>m_callbacks := [Bound_parse child]\<rparr>) frame s =
       child_parse child frame s"
    by (simp add: frame_handled_def split: option.splits prod.splits)
next
  show "frame_handled child_parse (f\<lparr>m_callbacks := []\<rparr>) frame s = Some (None, s)"
    by (simp add: frame_handled_def)
qed (simp_all add: add_callback_appends add_callback_others add_callback_keeps new_root_keeps
      new_filter_keeps parse_root_filters frame_handled_append frame_handled_single)

text \<open>The root of the tree of three levels has observer 1 and then the entry of its
  child: the dispatch of the root calls observer 1 and then the \<open>parse\<close> of the
  child, which reaches observers 2 and 3. Observer 4, added to the root, comes last
  in its vector.\<close>

theorem frame_handled_registration_order_witness:
  "filter_at (add_callback 0 (Observer 4 returns) demo_tree) 0 =
     Some \<lparr>frame_type = Hdr4,
           m_callbacks = [Observer 1 returns, Bound_parse 1, Observer 4 returns]\<rparr>
   \<and> filter_at (add_callback 0 (Observer 4 returns) demo_tree) 1 = filter_at demo_tree 1
   \<and> keeps_callbacks demo_tree (add_callback 0 (Observer 4 returns) demo_tree)
   \<and> keeps_callbacks demo_tree (snd (new_root ProtoA demo_tree))
   \<and> keeps_callbacks demo_tree (snd (new_filter ProtoA 0 demo_tree))
   \<and> frame_handled (parse 2 demo)
        \<lparr>frame_type = Hdr4, m_callbacks = [Observer 1 returns, Bound_parse 1]\<rparr>
        (const_helper Hdr4 demo_buf) demo_tree =
      Some (None, demo_tree\<lparr>fired := [(1, const_helper Hdr4 demo_buf),
          (2, const_helper ProtoB [11, 1, 12]), (3, const_helper ProtoC [12])], world := 3\<rparr>)
   \<and> frame_handled (parse 2 demo)
        \<lparr>frame_type = Hdr4, m_callbacks = [Bound_parse 1]\<rparr>
        (const_helper Hdr4 demo_buf) demo_tree =
      parse 2 demo 1 (const_helper Hdr4 demo_buf) demo_tree
   \<and> parse 2 demo 1 (const_helper Hdr4 demo_buf) demo_tree =
      Some (None, demo_tree\<lparr>fired := [(2, const_helper ProtoB [11, 1, 12]),
          (3, const_helper ProtoC [12])], world := 2\<rparr>)
   \<and> frame_handled (parse 0 demo)
        \<lparr>frame_type = ProtoC, m_callbacks = [Observer 3 returns]\<rparr>
        (const_helper ProtoC [12]) demo_tree =
      Some (None, demo_tree\<lparr>fired := [(3, const_helper ProtoC [12])], world := 1\<rparr>)"
proof -
  let ?root = "\<lparr>frame_type = Hdr4, m_callbacks = [Observer 1 returns, Bound_parse 1]\<rparr>
      :: (proto, nat) filter_obj"
  let ?leaf = "\<lparr>frame_type = ProtoC, m_callbacks = [Observer 3 returns]\<rparr>
      :: (proto, nat) filter_obj"
  let ?v1 = "const_helper Hdr4 demo_buf"
  let ?v3 = "const_helper ProtoC [12]"
  let ?end = "demo_tree\<lparr>fired := [(1, const_helper Hdr4 demo_buf),
      (2, const_helper ProtoB [11, 1, 12]), (3, const_helper ProtoC [12])], world := 3\<rparr>"
  have a: "0 < length (filters demo_tree)" and b: "(1::nat) \<noteq> 0"
    by (simp_all add: demo_tree_eq)
  have run: "parse_root 2 demo 0 demo_buf demo_tree = Some (None, ?end)"
    by (simp add: demo_tree_eq run_defs numeral_2_eq_2)
  have child: "parse 2 demo 1 ?v1 s1 =
      Some (None, s1\<lparr>fired := fired s1 @ [(2, const_helper ProtoB [11, 1, 12]),
          (3, const_helper ProtoC [12])], world := Suc (Suc (world s1))\<rparr>)"
    if "filters s1 = filters demo_tree" for s1 :: "(proto, nat) memory"
    using that by (simp add: demo_tree_eq run_defs numeral_2_eq_2)
  have all_return: "\<forall>c\<in>set (m_callbacks ?root). \<forall>s1 :: (proto, nat) memory.
      filters s1 = filters demo_tree \<longrightarrow>
      (\<exists>s'. invoke (parse 2 demo) ?v1 c s1 = Some (None, s'))"
    using child by (simp add: returns_def Let_def)
  have second: "1 < length (m_callbacks ?root)
      \<and> frame_handled (parse 2 demo) (?root\<lparr>m_callbacks := take 1 (m_callbacks ?root)\<rparr>) ?v1 demo_tree
          = Some (None, demo_tree\<lparr>fired := [(1, ?v1)], world := 1\<rparr>)"
    by (simp add: demo_tree_eq frame_handled_def returns_def Let_def)
  have leaf_return: "\<forall>c\<in>set (m_callbacks ?leaf). \<forall>s. \<exists>s'.
      invoke (parse 0 demo) ?v3 c s = Some (None, s')"
    by (simp add: returns_def Let_def)
  have leaf_obs: "list_all (returning ?v3) (m_callbacks ?leaf)"
    by (simp add: returns_def)
  note at_root = frame_handled_registration_order
    [where a = 0 and s = demo_tree and c = "Observer 4 returns" and b = 1 and f = ?root
       and child_parse = "parse 2 demo" and frame = ?v1 and t = ProtoA and p = 0
       and n = 2 and env = demo and buf = demo_buf and r = None and s' = ?end
       and child = 1 and k = 1 and sk = "demo_tree\<lparr>fired := [(1, ?v1)], world := 1\<rparr>"]
  note at_leaf = frame_handled_registration_order
    [where s = demo_tree and f = ?leaf and child_parse = "parse 0 demo" and frame = ?v3]
  from at_root a b run all_return second
  have root_facts:
    "filter_at (add_callback 0 (Observer 4 returns) demo_tree) 0 =
       Some ((filters demo_tree ! 0)\<lparr>m_callbacks := m_callbacks (filters demo_tree ! 0)
          @ [Observer 4 returns]\<rparr>)"
    "filter_at (add_callback 0 (Observer 4 returns) demo_tree) 1 = filter_at demo_tree 1"
    "keeps_callbacks demo_tree (add_callback 0 (Observer 4 returns) demo_tree)"
    "keeps_callbacks demo_tree (snd (new_root ProtoA demo_tree))"
    "keeps_callbacks demo_tree (snd (new_filter ProtoA 0 demo_tree))"
    "frame_handled (parse 2 demo) (?root\<lparr>m_callbacks := [Bound_parse 1]\<rparr>) ?v1 demo_tree =
       parse 2 demo 1 ?v1 demo_tree"
    "frame_handled (parse 2 demo) ?root ?v1 demo_tree =
       Some (None, foldl (\<lambda>s c. snd (the (invoke (parse 2 demo) ?v1 c s))) demo_tree
          (m_callbacks ?root))"
    by blast+
  from at_leaf leaf_return leaf_obs
  have leaf_facts: "frame_handled (parse 0 demo) ?leaf ?v3 demo_tree =
       Some (None, foldl (\<lambda>s c. snd (the (invoke (parse 0 demo) ?v3 c s))) demo_tree
          (m_callbacks ?leaf))"
    by blast
  have "parse 2 demo 1 ?v1 demo_tree =
      Some (None, demo_tree\<lparr>fired := [(2, const_helper ProtoB [11, 1, 12]),
          (3, const_helper ProtoC [12])], world := 2\<rparr>)"
    using child [OF refl] by (simp add: demo_tree_eq)
  moreover have "foldl (\<lambda>s c. snd (the (invoke (parse 2 demo) ?v1 c s))) demo_tree
      (m_callbacks ?root) = ?end"
    by (simp add: child returns_def Let_def del: One_nat_def) (simp add: demo_tree_eq)
  moreover have "foldl (\<lambda>s c. snd (the (invoke (parse 0 demo) ?v3 c s))) demo_tree
      (m_callbacks ?leaf) = demo_tree\<lparr>fired := [(3, const_helper ProtoC [12])], world := 1\<rparr>"
    by (simp add: returns_def Let_def demo_tree_eq)
  moreover have "(filters demo_tree ! 0)\<lparr>m_callbacks := m_callbacks (filters demo_tree ! 0)
          @ [Observer 4 returns]\<rparr> = \<lparr>frame_type = Hdr4,
           m_callbacks = [Observer 1 returns, Bound_parse 1, Observer 4 returns]\<rparr>"
    by (simp add: demo_tree_eq)
  ultimately show ?thesis
    using root_facts leaf_facts by simp
qed

text \<open>
  Claim C9. Take a memory that holds trees of filters, with observers for which the
  frame decides whether they return or throw (observers that do not throw, as
  callbacks are expected to, are such), a root filter and a buffer. \<open>parse\<close> of the
  root on the buffer has an outcome; called again on the same buffer, from the
  memory the first call has left, it has the same outcome, and the observer calls of
  the second run are those of the first run: the same observers, in the same order,
  on the same views.
\<close>

theorem parse_root_twice:
  fixes s :: "('t, 'w) memory"
  assumes "tree_shaped s" and "steady_observers s"
    and "a < length (filters s)" and "length (filters s) \<le> n"
  shows "\<exists>r s1 s2 calls.
      parse_root n env a buf s = Some (r, s1) \<and> fired s1 = fired s @ calls
      \<and> parse_root n env a buf s1 = Some (r, s2) \<and> fired s2 = fired s1 @ calls"
proof -
  from parse_root_returns [OF assms(1,3,4)] obtain r s1
    where run1: "parse_root n env a buf s = Some (r, s1)" by blast
  from parse_root_filters [OF run1] have fs: "filters s = filters s1" by simp
  from same_calls_parse_root [OF assms(2) fs, of n env a buf] run1
  obtain s2 calls where "parse_root n env a buf s1 = Some (r, s2)"
    "fired s1 = fired s @ calls" "fired s2 = fired s1 @ calls"
    by (auto simp: same_calls_def split: option.splits)
  with run1 show ?thesis by blast
qed

theorem parse_root_twice_witness:
  "\<exists>r s1 s2 calls.
      parse_root 3 demo 0 demo_buf demo_tree = Some (r, s1) \<and> fired s1 = fired demo_tree @ calls
      \<and> parse_root 3 demo 0 demo_buf s1 = Some (r, s2) \<and> fired s2 = fired s1 @ calls"
proof -
  have "tree_shaped demo_tree"
    by (simp add: demo_tree_eq tree_shaped_def)
  moreover have "steady_observers demo_tree"
    by (simp add: demo_tree_eq steady_observers_def returns_def)
  moreover have "0 < length (filters demo_tree)" "length (filters demo_tree) \<le> 3"
    by (simp_all add: demo_tree_eq)
  ultimately show ?thesis by (rule parse_root_twice)
qed

text \<open>
  Claim C10, amended. When a callback throws during the dispatch of a filter, the
  callbacks after it in the vector of that filter are not called: the dispatch ends
  with the exception, in the memory the throwing callback has left, as it would with
  no callback after it. What happens then depends on the exception. A
  \<open>std::runtime_error\<close> is caught by the \<open>parse\<close> that dispatched, root or not, which
  returns normally: the exception does not reach the parent. Any other exception
  leaves that \<open>parse\<close>; since the \<open>parse\<close> of a child is a callback of its parent,
  the same holds one level up, to the caller of the root.
\<close>

theorem raising_callback_ends_dispatch:
  fixes s :: "('t, 'w) memory"
  assumes "m_callbacks f = before @ c # after"
    and "for_each (invoke (parse n env) frame) before s = Some (None, s1)"
    and "invoke (parse n env) frame c s1 = Some (Some e, s2)"
  shows "frame_handled (parse n env) f frame s = Some (Some e, s2)
    \<and> frame_handled (parse n env) (f\<lparr>m_callbacks := before @ [c]\<rparr>) frame s = Some (Some e, s2)
    \<and> (filter_at s a = Some f \<and> frame_parent_match env (frame_type f) parent
         \<and> frame_parse env (frame_type f) (helper_payload env parent) = Inr frame
       \<longrightarrow> parse (Suc n) env a parent s =
             Some (case e of runtime_error m \<Rightarrow> None | other_exception m \<Rightarrow> Some e, s2))
    \<and> (filter_at s a = Some f \<and> frame_parse env (frame_type f) buf = Inr frame
       \<longrightarrow> parse_root n env a buf s =
             Some (case e of runtime_error m \<Rightarrow> None | other_exception m \<Rightarrow> Some e, s2))"
proof -
  have fh: "frame_handled (parse n env) f frame s = Some (Some e, s2)"
    using assms by (simp add: frame_handled_def for_each_raise)
  have "frame_handled (parse n env) (f\<lparr>m_callbacks := before @ [c]\<rparr>) frame s = Some (Some e, s2)"
    using assms(2,3) by (simp add: frame_handled_def for_each_raise)
  with fh show ?thesis
    by (cases e) (simp_all add: parse_root_def)
qed

text \<open>Observer 2 of the child throws something that is not a \<open>std::runtime_error\<close>:
  it leaves the \<open>parse\<close> of the child and the \<open>parse\<close> of the root, and neither
  observer 3 nor observer 4 is called. When it throws a \<open>std::runtime_error\<close>, the
  \<open>parse\<close> of the child returns.\<close>

theorem raising_callback_ends_dispatch_witness:
  "parse 1 demo 1 (const_helper Hdr4 demo_buf) (demo_raising throws_other) =
     Some (Some (other_exception ''observer''),
       (demo_raising throws_other)\<lparr>fired := [(2, const_helper ProtoB [11, 1, 12])], world := 1\<rparr>)
   \<and> parse_root 1 demo 0 demo_buf (demo_raising throws_other) =
     Some (Some (other_exception ''observer''),
       (demo_raising throws_other)\<lparr>fired := [(2, const_helper ProtoB [11, 1, 12])], world := 1\<rparr>)
   \<and> parse 1 demo 1 (const_helper Hdr4 demo_buf) (demo_raising throws_runtime_error) =
     Some (None, (demo_raising throws_runtime_error)
       \<lparr>fired := [(2, const_helper ProtoB [11, 1, 12])], world := 1\<rparr>)"
proof -
  let ?parent = "const_helper Hdr4 demo_buf"
  let ?frame = "const_helper ProtoB [11, 1, 12]"
  let ?root = "\<lparr>frame_type = Hdr4, m_callbacks = [Bound_parse 1, Observer 4 returns]\<rparr>
      :: (proto, nat) filter_obj"
  let ?fb = "\<lambda>g. \<lparr>frame_type = ProtoB, m_callbacks = [Observer 2 g, Observer 3 returns]\<rparr>
      :: (proto, nat) filter_obj"
  let ?s = "demo_raising throws_other"
  let ?s2 = "?s\<lparr>fired := [(2, ?frame)], world := 1\<rparr>"
  let ?t = "demo_raising throws_runtime_error"
  let ?t2 = "?t\<lparr>fired := [(2, ?frame)], world := 1\<rparr>"
  have child: "m_callbacks (?fb throws_other) = [] @ Observer 2 throws_other # [Observer 3 returns]"
    "for_each (invoke (parse 0 demo) ?frame) [] ?s = Some (None, ?s)"
    "invoke (parse 0 demo) ?frame (Observer 2 throws_other) ?s
       = Some (Some (other_exception ''observer''), ?s2)"
    by (simp_all add: demo_raising_eq throws_other_def Let_def)
  have at_child: "filter_at ?s 1 = Some (?fb throws_other)
      \<and> frame_parent_match demo (frame_type (?fb throws_other)) ?parent
      \<and> frame_parse demo (frame_type (?fb throws_other)) (helper_payload demo ?parent) = Inr ?frame"
    by (simp add: demo_raising_eq run_defs)
  note c1 = raising_callback_ends_dispatch [OF child, where a = 1 and parent = ?parent]
  from c1 at_child have pc: "parse 1 demo 1 ?parent ?s =
      Some (Some (other_exception ''observer''), ?s2)" by simp
  have root: "m_callbacks ?root = [] @ Bound_parse 1 # [Observer 4 returns]"
    "for_each (invoke (parse 1 demo) ?parent) [] ?s = Some (None, ?s)"
    "invoke (parse 1 demo) ?parent (Bound_parse 1) ?s
       = Some (Some (other_exception ''observer''), ?s2)"
    using pc by simp_all
  have at_root: "filter_at ?s 0 = Some ?root
      \<and> frame_parse demo (frame_type ?root) demo_buf = Inr ?parent"
    by (simp add: demo_raising_eq run_defs)
  note c2 = raising_callback_ends_dispatch [OF root, where a = 0 and buf = demo_buf]
  have child': "m_callbacks (?fb throws_runtime_error)
        = [] @ Observer 2 throws_runtime_error # [Observer 3 returns]"
    "for_each (invoke (parse 0 demo) ?frame) [] ?t = Some (None, ?t)"
    "invoke (parse 0 demo) ?frame (Observer 2 throws_runtime_error) ?t
       = Some (Some (runtime_error ''observer''), ?t2)"
    by (simp_all add: demo_raising_eq throws_runtime_error_def Let_def)
  have at_child': "filter_at ?t 1 = Some (?fb throws_runtime_error)
      \<and> frame_parent_match demo (frame_type (?fb throws_runtime_error)) ?parent
      \<and> frame_parse demo (frame_type (?fb throws_runtime_error)) (helper_payload demo ?parent)
          = Inr ?frame"
    by (simp add: demo_raising_eq run_defs)
  note c3 = raising_callback_ends_dispatch [OF child', where a = 1 and parent = ?parent]
  from pc c2 at_root c3 at_child' show ?thesis by simp
qed

text \<open>Observer 2 of the child throws a \<open>std::runtime_error\<close>. Observer 3, after it in
  the same vector, is not called; the \<open>parse\<close> of the child returns without an
  exception, and the dispatch of the root goes on to observer 4.\<close>

theorem raising_callback_counterexample:
  "parse 1 demo 1 (const_helper Hdr4 demo_buf) (demo_raising throws_runtime_error) =
     Some (None, (demo_raising throws_runtime_error)
        \<lparr>fired := [(2, const_helper ProtoB [11, 1, 12])], world := 1\<rparr>)
   \<and> parse_root 1 demo 0 demo_buf (demo_raising throws_runtime_error) =
     Some (None, (demo_raising throws_runtime_error)
        \<lparr>fired := [(2, const_helper ProtoB [11, 1, 12]), (4, const_helper Hdr4 demo_buf)],
          world := 2\<rparr>)"
  by (simp add: demo_raising_eq parse_root_def filter_at_def frame_handled_def Let_def
      demo_def demo_buf_def frame_parse_def frame_cast_def returns_def throws_runtime_error_def)

end
